theory Spec2Isabelle
  imports Main "HOL-Library.AList" "HOL-Library.Char_ord" "HOL-Library.List_Lexorder"
begin

section \<open>Values, exceptions, handlers and holders\<close>

text \<open>
  The module \<^verbatim>\<open>lark/visitors.py\<close> walks trees of the external class \<^verbatim>\<open>Tree\<close>, which has the
  three fields \<^verbatim>\<open>data\<close> (the tag), \<^verbatim>\<open>children\<close> and \<^verbatim>\<open>meta\<close>. A Python value is a
  \<^verbatim>\<open>Tree\<close> instance, a list, or any other object; the only test the module makes on a value is
  \<^verbatim>\<open>isinstance(c, Tree)\<close>. Everything that is not a \<^verbatim>\<open>Tree\<close> is passed through as a leaf.
  Metadata is an arbitrary Python object and therefore a value as well.
\<close>

datatype 'a pyval =
    Leaf 'a
  | PList "'a pyval list"
  | Tree string "'a pyval list" "'a pyval"

fun isinstance_Tree :: "'a pyval \<Rightarrow> bool" where
  "isinstance_Tree (Tree d cs md) = True"
| "isinstance_Tree (Leaf x) = False"
| "isinstance_Tree (PList xs) = False"

text \<open>
  Exceptions are values. \<open>Discard\<close> is the class defined by the module; the others are the
  built-in exceptions that the code of the module, or a handler, can raise.
\<close>

datatype exn =
    Discard
  | AttributeError
  | TypeError
  | IndexError
  | ValueError
  | AssertionError
  | RecursionError
  | StopIteration
  | RuntimeError
  | UserError string

text \<open>
  A handler is what \<^verbatim>\<open>getattr(self, data)\<close> returns: a callable, of which the dispatcher reads
  the two attributes \<^verbatim>\<open>meta\<close> and \<^verbatim>\<open>inline\<close> (\<^verbatim>\<open>getattr(f, 'meta', False)\<close>: an absent
  attribute reads as false). The callable receives its positional arguments as a list and
  returns a value or raises. Handlers are taken to be functions of their arguments.
\<close>

record 'a handler =
  meta :: bool
  inline :: bool
  call :: "'a pyval list \<Rightarrow> exn + 'a pyval"

text \<open>
  A holder is an instance of \<^verbatim>\<open>Transformer\<close> or of a subclass: \<open>attrs\<close> is the attribute
  lookup \<^verbatim>\<open>getattr(self, name)\<close> (\<open>None\<close> when it raises \<^verbatim>\<open>AttributeError\<close>), and
  \<open>default_handler\<close> is the method \<^verbatim>\<open>__default__(data, children, meta)\<close>, which a subclass
  may override.
\<close>

record 'a holder =
  attrs :: "string \<Rightarrow> 'a handler option"
  default_handler :: "string \<Rightarrow> 'a pyval list \<Rightarrow> 'a pyval \<Rightarrow> exn + 'a pyval"

section \<open>Transformer\<close>

text \<open>\<^verbatim>\<open>Transformer._call_userfunc(self, data, children, meta)\<close>\<close>

definition call_userfunc ::
  "'a holder \<Rightarrow> string \<Rightarrow> 'a pyval list \<Rightarrow> 'a pyval \<Rightarrow> exn + 'a pyval" where
  "call_userfunc self data children md =
     (case attrs self data of
        None \<Rightarrow> default_handler self data children md
      | Some f \<Rightarrow>
          if meta f then call f [PList children, md]
          else if inline f then call f children
          else call f [PList children])"

text \<open>
  An exception that is raised inside a generator and not caught there leaves the generator
  as it is, except \<^verbatim>\<open>StopIteration\<close>, which the generator turns into \<^verbatim>\<open>RuntimeError\<close>.
\<close>

definition leaving_generator :: "exn \<Rightarrow> exn" where
  "leaving_generator e = (if e = StopIteration then RuntimeError else e)"

text \<open>
  \<^verbatim>\<open>Transformer._transform_tree\<close> and the generator \<^verbatim>\<open>Transformer._transform_children\<close>, which
  \<^verbatim>\<open>_transform_tree\<close> consumes whole with \<^verbatim>\<open>list(...)\<close>. Reading \<^verbatim>\<open>tree.children\<close> of a
  value that is not a \<^verbatim>\<open>Tree\<close> raises \<^verbatim>\<open>AttributeError\<close>. In the generator only
  \<^verbatim>\<open>Discard\<close> is caught; any other exception leaves the generator and \<^verbatim>\<open>list(...)\<close>.
\<close>

fun transform_tree :: "'a holder \<Rightarrow> 'a pyval \<Rightarrow> exn + 'a pyval"
  and transform_children :: "'a holder \<Rightarrow> 'a pyval list \<Rightarrow> exn + 'a pyval list" where
  "transform_tree self (Tree data cs md) =
     (case transform_children self cs of
        Inl e \<Rightarrow> Inl e
      | Inr children \<Rightarrow> call_userfunc self data children md)"
| "transform_tree self (Leaf x) = Inl AttributeError"
| "transform_tree self (PList xs) = Inl AttributeError"
| "transform_children self [] = Inr []"
| "transform_children self (c # cs) =
     (if isinstance_Tree c then
        (case transform_tree self c of
           Inl Discard \<Rightarrow> transform_children self cs
         | Inl e \<Rightarrow> Inl (leaving_generator e)
         | Inr v \<Rightarrow>
             (case transform_children self cs of
                Inl e \<Rightarrow> Inl e
              | Inr vs \<Rightarrow> Inr (v # vs)))
      else
        (case transform_children self cs of
           Inl e \<Rightarrow> Inl e
         | Inr vs \<Rightarrow> Inr (c # vs)))"

text \<open>\<^verbatim>\<open>Transformer.transform\<close>\<close>

definition transform :: "'a holder \<Rightarrow> 'a pyval \<Rightarrow> exn + 'a pyval" where
  "transform self tree = transform_tree self tree"

text \<open>\<^verbatim>\<open>Transformer.__default__\<close>, as the class defines it.\<close>

definition Transformer_default :: "string \<Rightarrow> 'a pyval list \<Rightarrow> 'a pyval \<Rightarrow> exn + 'a pyval" where
  "Transformer_default data children md = Inr (Tree data children md)"

text \<open>
  Every instance also has the attributes of Python's \<^verbatim>\<open>object\<close> (the names are those of
  Python 3.11). Called with one argument, the comparisons and \<^verbatim>\<open>__subclasshook__\<close> return
  \<^verbatim>\<open>NotImplemented\<close>; each of the others raises \<^verbatim>\<open>TypeError\<close>, because it is not callable
  (\<^verbatim>\<open>__doc__\<close>, \<^verbatim>\<open>__dict__\<close>, \<^verbatim>\<open>__module__\<close>, \<^verbatim>\<open>__weakref__\<close>) or does not accept the
  argument. An object of the runtime that is a result (\<^verbatim>\<open>NotImplemented\<close>, a generator, a
  chain, a bound method) is a leaf; \<open>objects\<close> gives the leaf for its description.
\<close>

definition object_attr_names :: "string list" where
  "object_attr_names =
     [''__class__'', ''__delattr__'', ''__dict__'', ''__dir__'', ''__doc__'', ''__eq__'',
      ''__format__'', ''__ge__'', ''__getattribute__'', ''__getstate__'', ''__gt__'', ''__hash__'',
      ''__init__'', ''__init_subclass__'', ''__le__'', ''__lt__'', ''__module__'', ''__ne__'',
      ''__new__'', ''__reduce__'', ''__reduce_ex__'', ''__repr__'', ''__setattr__'', ''__sizeof__'',
      ''__str__'', ''__subclasshook__'', ''__weakref__'']"

definition object_attr_call :: "(string \<Rightarrow> 'a) \<Rightarrow> string \<Rightarrow> (exn + 'a pyval) option" where
  "object_attr_call objects name =
     (if name \<in> set [''__eq__'', ''__ge__'', ''__gt__'', ''__le__'', ''__lt__'', ''__ne__'',
          ''__subclasshook__'']
        then Some (Inr (Leaf (objects ''NotImplemented'')))
      else if name \<in> set object_attr_names then Some (Inl TypeError)
      else None)"

text \<open>
  What \<^verbatim>\<open>getattr\<close> finds on an instance of \<^verbatim>\<open>Transformer\<close> itself (no subclass, no handler
  of the author's): the methods of the class are attributes too. A bound method has neither a
  \<^verbatim>\<open>meta\<close> nor an \<^verbatim>\<open>inline\<close> attribute, so the dispatcher calls it as \<^verbatim>\<open>f(children)\<close>, with
  the list of reduced children as its only argument:
  \<^item> \<^verbatim>\<open>self.transform(children)\<close> and \<^verbatim>\<open>self._transform_tree(children)\<close> read
    \<^verbatim>\<open>children.children\<close> first, which a list does not have: \<^verbatim>\<open>AttributeError\<close>;
  \<^item> \<^verbatim>\<open>self._call_userfunc(children)\<close> and \<^verbatim>\<open>self.__default__(children)\<close> lack two
    positional arguments: \<^verbatim>\<open>TypeError\<close>;
  \<^item> \<^verbatim>\<open>self._apply_decorator(children)\<close> takes the list for the decorator and calls it on the
    first member it does not skip, \<^verbatim>\<open>transform\<close>; a list is not callable: \<^verbatim>\<open>TypeError\<close>;
  \<^item> \<^verbatim>\<open>self._transform_children(children)\<close> returns a generator, without running it;
  \<^item> \<^verbatim>\<open>self.__mul__(children)\<close> returns a \<^verbatim>\<open>TransformerChain\<close>;
  \<^item> the other attributes are those of \<^verbatim>\<open>object\<close>.
\<close>

definition bound_method :: "('a pyval list \<Rightarrow> exn + 'a pyval) \<Rightarrow> 'a handler" where
  "bound_method f = \<lparr>meta = False, inline = False, call = f\<rparr>"

definition Transformer_attrs :: "(string \<Rightarrow> 'a) \<Rightarrow> string \<Rightarrow> 'a handler option" where
  "Transformer_attrs objects name =
     (if name = ''transform'' \<or> name = ''_transform_tree''
        then Some (bound_method (\<lambda>args. Inl AttributeError))
      else if name = ''_call_userfunc'' \<or> name = ''__default__'' \<or> name = ''_apply_decorator''
        then Some (bound_method (\<lambda>args. Inl TypeError))
      else if name = ''_transform_children''
        then Some (bound_method (\<lambda>args. Inr (Leaf (objects ''generator''))))
      else if name = ''__mul__''
        then Some (bound_method (\<lambda>args. Inr (Leaf (objects ''TransformerChain''))))
      else map_option (\<lambda>r. bound_method (\<lambda>args. r)) (object_attr_call objects name))"

definition Transformer_instance :: "(string \<Rightarrow> 'a) \<Rightarrow> 'a holder" where
  "Transformer_instance objects =
     \<lparr>attrs = Transformer_attrs objects, default_handler = Transformer_default\<rparr>"

text \<open>The tags of the nodes of a tree: the nodes that the traversal of the children reaches.\<close>

fun node_tags :: "'a pyval \<Rightarrow> string list" where
  "node_tags (Tree data cs md) = data # concat (map node_tags cs)"
| "node_tags (Leaf x) = []"
| "node_tags (PList xs) = []"

text \<open>
  The reduction of one child, as the body of the generator's loop computes it, and the
  children that the parent's handler is to receive according to the specification: the
  results of the children whose reduction returns, in their order.
\<close>

definition reduce_child :: "'a holder \<Rightarrow> 'a pyval \<Rightarrow> exn + 'a pyval" where
  "reduce_child self c = (if isinstance_Tree c then transform_tree self c else Inr c)"

definition kept_children :: "'a holder \<Rightarrow> 'a pyval list \<Rightarrow> 'a pyval list" where
  "kept_children self cs =
     List.map_filter (\<lambda>c. case reduce_child self c of Inl e \<Rightarrow> None | Inr v \<Rightarrow> Some v) cs"

section \<open>TransformerChain\<close>

text \<open>
  An object that a chain can hold is an instance of \<^verbatim>\<open>Transformer\<close>, a
  \<^verbatim>\<open>TransformerChain\<close> (with its tuple \<^verbatim>\<open>transformers\<close>), or any other object with a
  \<^verbatim>\<open>transform\<close> of its own, given by that function.
\<close>

datatype 'a strategy =
    Transformer "'a holder"
  | TransformerChain "'a strategy list"
  | Other "'a pyval \<Rightarrow> exn + 'a pyval"

text \<open>\<^verbatim>\<open>t.transform(tree)\<close>, and the loop of \<^verbatim>\<open>TransformerChain.transform\<close>.\<close>

fun strategy_transform :: "'a strategy \<Rightarrow> 'a pyval \<Rightarrow> exn + 'a pyval"
  and chain_loop :: "'a strategy list \<Rightarrow> 'a pyval \<Rightarrow> exn + 'a pyval" where
  "strategy_transform (Transformer self) tree = transform self tree"
| "strategy_transform (TransformerChain ts) tree = chain_loop ts tree"
| "strategy_transform (Other f) tree = f tree"
| "chain_loop [] tree = Inr tree"
| "chain_loop (t # ts) tree =
     (case strategy_transform t tree of
        Inl e \<Rightarrow> Inl e
      | Inr tree' \<Rightarrow> chain_loop ts tree')"

text \<open>\<^verbatim>\<open>Transformer.__mul__\<close> and \<^verbatim>\<open>TransformerChain.__mul__\<close>\<close>

definition Transformer_mul :: "'a holder \<Rightarrow> 'a strategy \<Rightarrow> 'a strategy" where
  "Transformer_mul self other = TransformerChain [Transformer self, other]"

definition TransformerChain_mul :: "'a strategy list \<Rightarrow> 'a strategy \<Rightarrow> 'a strategy" where
  "TransformerChain_mul transformers other = TransformerChain (transformers @ [other])"

section \<open>Transformer_InPlaceRecursive\<close>

text \<open>
  \<^verbatim>\<open>Transformer_InPlaceRecursive._transform_tree\<close> assigns to \<^verbatim>\<open>tree.children\<close>. The nodes of
  the input are objects; a node is identified by its path from the root (the indices of the
  children followed to reach it), and the store maps a node to the value its field
  \<^verbatim>\<open>children\<close> was last assigned. In a tree no node is reached twice, so a node's children
  are read before anything is assigned to it, and the read yields the original children.
  The inherited generator \<^verbatim>\<open>_transform_children\<close> calls the overriding \<^verbatim>\<open>_transform_tree\<close>.
\<close>

type_synonym path = "nat list"

type_synonym 'a store = "path \<Rightarrow> 'a pyval list option"

fun inplace_transform_tree ::
    "'a holder \<Rightarrow> path \<Rightarrow> 'a pyval \<Rightarrow> 'a store \<Rightarrow> (exn + 'a pyval) \<times> 'a store"
  and inplace_transform_children ::
    "'a holder \<Rightarrow> path \<Rightarrow> nat \<Rightarrow> 'a pyval list \<Rightarrow> 'a store \<Rightarrow> (exn + 'a pyval list) \<times> 'a store" where
  "inplace_transform_tree self p (Tree data cs md) st =
     (case inplace_transform_children self p 0 cs st of
        (Inl e, st') \<Rightarrow> (Inl e, st')
      | (Inr children, st') \<Rightarrow> (call_userfunc self data children md, st'(p \<mapsto> children)))"
| "inplace_transform_tree self p (Leaf x) st = (Inl AttributeError, st)"
| "inplace_transform_tree self p (PList xs) st = (Inl AttributeError, st)"
| "inplace_transform_children self p i [] st = (Inr [], st)"
| "inplace_transform_children self p i (c # cs) st =
     (if isinstance_Tree c then
        (case inplace_transform_tree self (p @ [i]) c st of
           (Inl Discard, st') \<Rightarrow> inplace_transform_children self p (Suc i) cs st'
         | (Inl e, st') \<Rightarrow> (Inl (leaving_generator e), st')
         | (Inr v, st') \<Rightarrow>
             (case inplace_transform_children self p (Suc i) cs st' of
                (Inl e, st'') \<Rightarrow> (Inl e, st'')
              | (Inr vs, st'') \<Rightarrow> (Inr (v # vs), st'')))
      else
        (case inplace_transform_children self p (Suc i) cs st of
           (Inl e, st') \<Rightarrow> (Inl e, st')
         | (Inr vs, st') \<Rightarrow> (Inr (c # vs), st')))"

text \<open>\<^verbatim>\<open>transform\<close>, inherited from \<^verbatim>\<open>Transformer\<close>, on the root (the empty path).\<close>

definition inplace_transform :: "'a holder \<Rightarrow> 'a pyval \<Rightarrow> 'a store \<Rightarrow> (exn + 'a pyval) \<times> 'a store" where
  "inplace_transform self tree st = inplace_transform_tree self [] tree st"

text \<open>The node at a path, and the store that holds the children of every node of a tree.\<close>

fun subtree_at :: "'a pyval \<Rightarrow> path \<Rightarrow> 'a pyval option" where
  "subtree_at t [] = (if isinstance_Tree t then Some t else None)"
| "subtree_at (Tree data cs md) (i # q) = (if i < length cs then subtree_at (cs ! i) q else None)"
| "subtree_at (Leaf x) (i # q) = None"
| "subtree_at (PList xs) (i # q) = None"

definition store_of :: "'a pyval \<Rightarrow> 'a store" where
  "store_of t q = (case subtree_at t q of Some (Tree data cs md) \<Rightarrow> Some cs | _ \<Rightarrow> None)"

section \<open>The dispatches of one transform\<close>

text \<open>
  \<^verbatim>\<open>Transformer._transform_tree\<close> again, recording every call of \<^verbatim>\<open>_call_userfunc\<close> with the
  path of the node it is made for and the tag, in the order of the calls.
\<close>

fun traced_transform_tree ::
    "'a holder \<Rightarrow> path \<Rightarrow> 'a pyval \<Rightarrow> (exn + 'a pyval) \<times> (path \<times> string) list"
  and traced_transform_children ::
    "'a holder \<Rightarrow> path \<Rightarrow> nat \<Rightarrow> 'a pyval list \<Rightarrow> (exn + 'a pyval list) \<times> (path \<times> string) list" where
  "traced_transform_tree self p (Tree data cs md) =
     (case traced_transform_children self p 0 cs of
        (Inl e, tr) \<Rightarrow> (Inl e, tr)
      | (Inr children, tr) \<Rightarrow> (call_userfunc self data children md, tr @ [(p, data)]))"
| "traced_transform_tree self p (Leaf x) = (Inl AttributeError, [])"
| "traced_transform_tree self p (PList xs) = (Inl AttributeError, [])"
| "traced_transform_children self p i [] = (Inr [], [])"
| "traced_transform_children self p i (c # cs) =
     (if isinstance_Tree c then
        (case traced_transform_tree self (p @ [i]) c of
           (Inl Discard, tr) \<Rightarrow>
             (case traced_transform_children self p (Suc i) cs of (r, tr') \<Rightarrow> (r, tr @ tr'))
         | (Inl e, tr) \<Rightarrow> (Inl (leaving_generator e), tr)
         | (Inr v, tr) \<Rightarrow>
             (case traced_transform_children self p (Suc i) cs of
                (Inl e, tr') \<Rightarrow> (Inl e, tr @ tr')
              | (Inr vs, tr') \<Rightarrow> (Inr (v # vs), tr @ tr')))
      else
        (case traced_transform_children self p (Suc i) cs of
           (Inl e, tr') \<Rightarrow> (Inl e, tr')
         | (Inr vs, tr') \<Rightarrow> (Inr (c # vs), tr')))"

section \<open>Decorators\<close>

text \<open>
  A class is given by \<^verbatim>\<open>getmro(cls)\<close>: the namespaces (\<^verbatim>\<open>__dict__\<close>) of the class itself and
  of its ancestors, in method resolution order, the class first. \<^verbatim>\<open>getattr(cls, name)\<close> is
  the entry of the first namespace that has the name; \<^verbatim>\<open>dir(cls)\<close> are the names of all
  namespaces, and \<^verbatim>\<open>inspect.getmembers(cls)\<close> pairs every name of \<^verbatim>\<open>dir(cls)\<close> with
  \<^verbatim>\<open>getattr(cls, name)\<close>, sorted by name. \<^verbatim>\<open>setattr(cls, name, v)\<close> writes the namespace of
  the class itself.
\<close>

type_synonym 'v namespace = "(string \<times> 'v) list"

type_synonym 'v pyclass = "'v namespace list"

fun class_getattr :: "'v pyclass \<Rightarrow> string \<Rightarrow> 'v option" where
  "class_getattr [] name = None"
| "class_getattr (ns # bases) name =
     (case map_of ns name of
        Some v \<Rightarrow> Some v
      | None \<Rightarrow> class_getattr bases name)"

definition class_dir :: "'v pyclass \<Rightarrow> string list" where
  "class_dir mro = sort (remdups (concat (map (map fst) mro)))"

definition getmembers :: "'v pyclass \<Rightarrow> (string \<times> 'v) list" where
  "getmembers mro =
     List.map_filter (\<lambda>name. map_option (Pair name) (class_getattr mro name)) (class_dir mro)"

definition class_setattr :: "'v pyclass \<Rightarrow> string \<Rightarrow> 'v \<Rightarrow> 'v pyclass" where
  "class_setattr mro name v =
     (case mro of [] \<Rightarrow> [] | ns # bases \<Rightarrow> AList.update name v ns # bases)"

definition startswith_underscore :: "string \<Rightarrow> bool" where
  "startswith_underscore name = (case name of [] \<Rightarrow> False | c # rest \<Rightarrow> c = CHR ''_'')"

text \<open>
  \<^verbatim>\<open>libmembers = {name for _cls in mro[1:] for name, _ in getmembers(_cls)}\<close>: every class
  of the method resolution order of an ancestor is itself among \<^verbatim>\<open>mro[1:]\<close>, so these are
  the names of the namespaces of \<^verbatim>\<open>mro[1:]\<close>.
\<close>

definition libmembers :: "'v pyclass \<Rightarrow> string list" where
  "libmembers mro = concat (map (map fst) (tl mro))"

text \<open>
  The classmethod \<^verbatim>\<open>Transformer._apply_decorator(cls, decorator, **kwargs)\<close>; the decorator is
  given with its keyword arguments applied. The members are computed once, before the loop.
\<close>

fun apply_decorator_loop ::
  "('v \<Rightarrow> exn + 'v) \<Rightarrow> string list \<Rightarrow> (string \<times> 'v) list \<Rightarrow> 'v pyclass \<Rightarrow> exn + 'v pyclass" where
  "apply_decorator_loop decorator lib [] cls = Inr cls"
| "apply_decorator_loop decorator lib ((name, v) # members) cls =
     (if startswith_underscore name \<or> name \<in> set lib then
        apply_decorator_loop decorator lib members cls
      else
        (case decorator v of
           Inl e \<Rightarrow> Inl e
         | Inr w \<Rightarrow> apply_decorator_loop decorator lib members (class_setattr cls name w)))"

definition Transformer_apply_decorator :: "'v pyclass \<Rightarrow> ('v \<Rightarrow> exn + 'v) \<Rightarrow> exn + 'v pyclass" where
  "Transformer_apply_decorator cls decorator =
     apply_decorator_loop decorator (libmembers cls) (getmembers cls) cls"

text \<open>
  The function \<^verbatim>\<open>_apply_decorator(obj, decorator, **kwargs)\<close> of the module. The object is a
  class that inherits \<^verbatim>\<open>_apply_decorator\<close> from \<^verbatim>\<open>Transformer\<close>, or an object without that
  attribute (a function), to which the decorator is applied directly.
\<close>

datatype 'v decorated =
    Plain 'v
  | Transformer_class "'v pyclass"

definition apply_decorator :: "'v decorated \<Rightarrow> ('v \<Rightarrow> exn + 'v) \<Rightarrow> exn + 'v decorated" where
  "apply_decorator obj decorator =
     (case obj of
        Plain f \<Rightarrow> (case decorator f of Inl e \<Rightarrow> Inl e | Inr g \<Rightarrow> Inr (Plain g))
      | Transformer_class cls \<Rightarrow>
          (case Transformer_apply_decorator cls decorator of
             Inl e \<Rightarrow> Inl e
           | Inr cls' \<Rightarrow> Inr (Transformer_class cls')))"

text \<open>
  \<^verbatim>\<open>create_decorator(_f, with_self)\<close> inside \<^verbatim>\<open>_visitor_args_func_dec\<close>: the wrapper forwards
  its arguments to \<^verbatim>\<open>_f\<close>, with or without the instance. The list of arguments of a handler's
  \<open>call\<close> leaves the instance out, so both wrappers forward the list.
\<close>

definition create_decorator ::
  "('a pyval list \<Rightarrow> exn + 'a pyval) \<Rightarrow> bool \<Rightarrow> ('a pyval list \<Rightarrow> exn + 'a pyval)" where
  "create_decorator f with_self = (if with_self then (\<lambda>args. f args) else (\<lambda>args. f args))"

text \<open>
  \<^verbatim>\<open>_visitor_args_func_dec(func, inline=False, meta=False)\<close>. The helper \<^verbatim>\<open>smart_decorator\<close>
  comes from \<^verbatim>\<open>lark/utils.py\<close> and is a parameter here: it receives the function and
  \<^verbatim>\<open>create_decorator\<close> and returns the wrapper, or raises.
\<close>

type_synonym 'a smart_decorator =
  "'a handler \<Rightarrow> (('a pyval list \<Rightarrow> exn + 'a pyval) \<Rightarrow> bool \<Rightarrow> ('a pyval list \<Rightarrow> exn + 'a pyval))
     \<Rightarrow> exn + 'a handler"

definition visitor_args_func_dec ::
  "'a smart_decorator \<Rightarrow> 'a handler \<Rightarrow> bool \<Rightarrow> bool \<Rightarrow> exn + 'a handler" where
  "visitor_args_func_dec smart_decorator func inl mt =
     (if inl \<and> mt then Inl AssertionError
      else
        (case smart_decorator func create_decorator of
           Inl e \<Rightarrow> Inl e
         | Inr f \<Rightarrow> Inr (f\<lparr>inline := inl, meta := mt\<rparr>)))"

text \<open>\<^verbatim>\<open>visitor_args(inline=False, meta=False)\<close> returns the decorator \<^verbatim>\<open>_visitor_args_dec\<close>.\<close>

definition visitor_args ::
  "'a smart_decorator \<Rightarrow> bool \<Rightarrow> bool \<Rightarrow> exn + ('a handler decorated \<Rightarrow> exn + 'a handler decorated)" where
  "visitor_args smart_decorator inl mt =
     (if inl \<and> mt then Inl ValueError
      else Inr (\<lambda>obj. apply_decorator obj (\<lambda>func. visitor_args_func_dec smart_decorator func inl mt)))"

text \<open>
  Modelled from the spec: \<^verbatim>\<open>smart_decorator\<close> of \<^verbatim>\<open>lark/utils.py\<close>, applied to a plain function.
  The specification has the decorator produce a wrapped handler that records how to invoke
  the underlying function: the result is the function with \<^verbatim>\<open>create_decorator(f, True)\<close> as
  what it calls.
\<close>

definition smart_decorator_function :: "'a smart_decorator" where
  "smart_decorator_function f create = Inr (f\<lparr>call := create (call f) True\<rparr>)"

section \<open>Interpreter\<close>

text \<open>
  A method of an \<^verbatim>\<open>Interpreter\<close> receives the node itself and may call \<^verbatim>\<open>self.visit\<close> and
  \<^verbatim>\<open>self.visit_children\<close>, any number of times and on any node, and it may have effects: it
  is a function of the instance's two operations, the node and a state \<open>'s\<close>, returning a
  result and the new state.
\<close>

type_synonym ('a, 's) action = "'s \<Rightarrow> (exn + 'a pyval) \<times> 's"

record ('a, 's) interp_self =
  self_visit :: "'a pyval \<Rightarrow> ('a, 's) action"
  self_visit_children :: "'a pyval \<Rightarrow> ('a, 's) action"

type_synonym ('a, 's) interp_method = "('a, 's) interp_self \<Rightarrow> 'a pyval \<Rightarrow> ('a, 's) action"

text \<open>
  An instance: \<open>lookup\<close> is the ordinary attribute lookup that \<^verbatim>\<open>getattr(self, name)\<close> tries
  first (\<open>None\<close> when it finds nothing, in which case \<^verbatim>\<open>__getattr__\<close> returns
  \<^verbatim>\<open>self.__default__\<close>); \<open>default_method\<close> is \<^verbatim>\<open>__default__\<close>.
\<close>

record ('a, 's) interpreter =
  lookup :: "string \<Rightarrow> ('a, 's) interp_method option"
  default_method :: "('a, 's) interp_method"

text \<open>The list comprehension of \<^verbatim>\<open>Interpreter.visit_children\<close>, with \<^verbatim>\<open>self.visit\<close> given.\<close>

fun visit_children_loop ::
  "('a pyval \<Rightarrow> ('a, 's) action) \<Rightarrow> 'a pyval list \<Rightarrow> 's \<Rightarrow> (exn + 'a pyval list) \<times> 's" where
  "visit_children_loop v [] s = (Inr [], s)"
| "visit_children_loop v (child # cs) s =
     (if isinstance_Tree child then
        (case v child s of
           (Inl e, s') \<Rightarrow> (Inl e, s')
         | (Inr r, s') \<Rightarrow>
             (case visit_children_loop v cs s' of
                (Inl e, s'') \<Rightarrow> (Inl e, s'')
              | (Inr rs, s'') \<Rightarrow> (Inr (r # rs), s'')))
      else
        (case visit_children_loop v cs s of
           (Inl e, s') \<Rightarrow> (Inl e, s')
         | (Inr rs, s') \<Rightarrow> (Inr (child # rs), s')))"

definition visit_children_with ::
  "('a pyval \<Rightarrow> ('a, 's) action) \<Rightarrow> 'a pyval \<Rightarrow> ('a, 's) action" where
  "visit_children_with v tree s =
     (case tree of
        Tree data cs md \<Rightarrow>
          (case visit_children_loop v cs s of
             (Inl e, s') \<Rightarrow> (Inl e, s')
           | (Inr rs, s') \<Rightarrow> (Inr (PList rs), s'))
      | Leaf x \<Rightarrow> (Inl AttributeError, s)
      | PList xs \<Rightarrow> (Inl AttributeError, s))"

text \<open>\<^verbatim>\<open>Interpreter.__default__\<close>, as the class defines it.\<close>

definition Interpreter_default :: "('a, 's) interp_method" where
  "Interpreter_default self tree = self_visit_children self tree"

text \<open>
  \<^verbatim>\<open>Interpreter.visit\<close>. A method can call \<^verbatim>\<open>self.visit\<close> on any node, so the recursion need
  not end: the first argument bounds the depth of nested calls of \<^verbatim>\<open>visit\<close>, as the
  interpreter's recursion limit does, and \<^verbatim>\<open>RecursionError\<close> is raised when it is used up.
\<close>

primrec visit :: "nat \<Rightarrow> ('a, 's) interpreter \<Rightarrow> 'a pyval \<Rightarrow> ('a, 's) action" where
  "visit 0 self tree = (\<lambda>s. (Inl RecursionError, s))"
| "visit (Suc n) self tree =
     (case tree of
        Tree data cs md \<Rightarrow>
          (case lookup self data of
             Some f \<Rightarrow>
               f \<lparr>self_visit = visit n self,
                  self_visit_children = visit_children_with (visit n self)\<rparr> tree
           | None \<Rightarrow>
               default_method self
                 \<lparr>self_visit = visit n self,
                  self_visit_children = visit_children_with (visit n self)\<rparr> tree)
      | Leaf x \<Rightarrow> (\<lambda>s. (Inl AttributeError, s))
      | PList xs \<Rightarrow> (\<lambda>s. (Inl AttributeError, s)))"

text \<open>
  What the ordinary lookup finds on an instance of \<^verbatim>\<open>Interpreter\<close> itself, called with the
  node: the class's own \<^verbatim>\<open>visit\<close>, \<^verbatim>\<open>visit_children\<close> and \<^verbatim>\<open>__default__\<close>, bound to the
  instance; \<^verbatim>\<open>__getattr__\<close>, which returns the bound method \<^verbatim>\<open>self.__default__\<close> whatever the
  name; and the attributes of \<^verbatim>\<open>object\<close>.
\<close>

definition Interpreter_lookup :: "(string \<Rightarrow> 'a) \<Rightarrow> string \<Rightarrow> ('a, 's) interp_method option" where
  "Interpreter_lookup objects name =
     (if name = ''visit'' then Some (\<lambda>self tree. self_visit self tree)
      else if name = ''visit_children'' \<or> name = ''__default__''
        then Some (\<lambda>self tree. self_visit_children self tree)
      else if name = ''__getattr__''
        then Some (\<lambda>self tree s. (Inr (Leaf (objects ''bound method'')), s))
      else map_option (\<lambda>r. (\<lambda>self tree s. (r, s))) (object_attr_call objects name))"

text \<open>\<^verbatim>\<open>Interpreter.visit_children\<close>, called from outside with the same bound.\<close>

definition visit_children :: "nat \<Rightarrow> ('a, 's) interpreter \<Rightarrow> 'a pyval \<Rightarrow> ('a, 's) action" where
  "visit_children n self tree = visit_children_with (visit n self) tree"

section \<open>Example holders\<close>

text \<open>
  A subclass of \<^verbatim>\<open>Transformer\<close> with five methods: \<^verbatim>\<open>A(self, children)\<close> returns the list
  it receives; \<^verbatim>\<open>B(self)\<close>, declared inline, takes no child and returns \<open>1\<close>; \<^verbatim>\<open>C\<close> raises
  \<^verbatim>\<open>Discard\<close>; \<^verbatim>\<open>M(self, children, meta)\<close>, declared with meta, returns the metadata;
  \<^verbatim>\<open>W\<close> returns a new tree tagged \<^verbatim>\<open>C\<close>. Every other name is looked up as on an instance of
  \<^verbatim>\<open>Transformer\<close> itself. The leaves are numbers; those from 1000 on stand for objects of the
  runtime.
\<close>

definition example_objects :: "string \<Rightarrow> nat" where
  "example_objects description = 1000 + length description"

definition example_attrs :: "string \<Rightarrow> nat handler option" where
  "example_attrs name =
     (if name = ''A'' then
        Some \<lparr>meta = False, inline = False,
              call = (\<lambda>args. case args of [children] \<Rightarrow> Inr children | _ \<Rightarrow> Inl TypeError)\<rparr>
      else if name = ''B'' then
        Some \<lparr>meta = False, inline = True,
              call = (\<lambda>args. case args of [] \<Rightarrow> Inr (Leaf 1) | _ \<Rightarrow> Inl TypeError)\<rparr>
      else if name = ''C'' then
        Some \<lparr>meta = False, inline = False, call = (\<lambda>args. Inl Discard)\<rparr>
      else if name = ''M'' then
        Some \<lparr>meta = True, inline = False,
              call = (\<lambda>args. case args of [children, md] \<Rightarrow> Inr md | _ \<Rightarrow> Inl TypeError)\<rparr>
      else if name = ''W'' then
        Some \<lparr>meta = False, inline = False, call = (\<lambda>args. Inr (Tree ''C'' [] (Leaf 0)))\<rparr>
      else Transformer_attrs example_objects name)"

definition example_holder :: "nat holder" where
  "example_holder = \<lparr>attrs = example_attrs, default_handler = Transformer_default\<rparr>"

definition example_tree :: "nat pyval" where
  "example_tree =
     Tree ''A'' [Tree ''B'' [] (Leaf 0), Tree ''C'' [] (Leaf 0), Tree ''B'' [] (Leaf 0)] (Leaf 0)"

section \<open>Example classes and interpreters\<close>



text \<open>
  Three methods of a subclass of \<^verbatim>\<open>Interpreter\<close> whose state is the list of the tags that
  were handled:
  \<^item> \<^verbatim>\<open>return self.visit_children(tree)[0]\<close>;
  \<^item> \<^verbatim>\<open>return self.visit(tree.children[0])\<close>;
  \<^item> \<^verbatim>\<open>self.calls.append(name); return 0\<close>.
  The two subclasses below handle the tags \<^verbatim>\<open>X\<close>, \<^verbatim>\<open>Y\<close> and \<^verbatim>\<open>Z\<close>; every other name is
  looked up as on an instance of \<^verbatim>\<open>Interpreter\<close> itself.
\<close>

definition visit_children_first :: "(nat, string list) interp_method" where
  "visit_children_first self tree s =
     (case self_visit_children self tree s of
        (Inl e, s') \<Rightarrow> (Inl e, s')
      | (Inr (PList (r # rs)), s') \<Rightarrow> (Inr r, s')
      | (Inr (PList []), s') \<Rightarrow> (Inl IndexError, s')
      | (Inr other, s') \<Rightarrow> (Inl TypeError, s'))"

definition visit_first_child :: "('a, 's) interp_method" where
  "visit_first_child self tree s =
     (case tree of
        Tree data (c # cs) md \<Rightarrow> self_visit self c s
      | Tree data [] md \<Rightarrow> (Inl IndexError, s)
      | Leaf x \<Rightarrow> (Inl AttributeError, s)
      | PList xs \<Rightarrow> (Inl AttributeError, s))"

definition count_call :: "string \<Rightarrow> (nat, string list) interp_method" where
  "count_call name self tree s = (Inr (Leaf 0), s @ [name])"

definition eager_interpreter :: "(nat, string list) interpreter" where
  "eager_interpreter =
     \<lparr>lookup = (\<lambda>name.
          if name = ''X'' then Some visit_children_first
          else if name = ''Y'' then Some (count_call ''Y'')
          else if name = ''Z'' then Some (count_call ''Z'')
          else Interpreter_lookup example_objects name),
      default_method = Interpreter_default\<rparr>"

definition lazy_interpreter :: "(nat, string list) interpreter" where
  "lazy_interpreter =
     \<lparr>lookup = (\<lambda>name.
          if name = ''X'' then Some visit_first_child
          else if name = ''Y'' then Some (count_call ''Y'')
          else if name = ''Z'' then Some (count_call ''Z'')
          else Interpreter_lookup example_objects name),
      default_method = Interpreter_default\<rparr>"

definition XYZ_tree :: "nat pyval" where
  "XYZ_tree = Tree ''X'' [Tree ''Y'' [] (Leaf 0), Tree ''Z'' [] (Leaf 0)] (Leaf 0)"

text \<open>
  Classes whose members are numbers that count how often a member was wrapped, with the
  decorator that wraps once more. \<^verbatim>\<open>Base\<close> derives from \<^verbatim>\<open>Transformer\<close> and defines
  \<^verbatim>\<open>expr\<close> and \<^verbatim>\<open>term\<close>; \<^verbatim>\<open>Sub\<close> derives from \<^verbatim>\<open>Base\<close>, overrides \<^verbatim>\<open>expr\<close> and defines
  \<^verbatim>\<open>_helper\<close> and \<^verbatim>\<open>fresh\<close>.
\<close>

definition wrap_once :: "nat \<Rightarrow> exn + nat" where
  "wrap_once v = Inr (Suc v)"

definition Transformer_namespace :: "nat namespace" where
  "Transformer_namespace =
     [(''_call_userfunc'', 0), (''_transform_children'', 0), (''_transform_tree'', 0),
      (''transform'', 0), (''__mul__'', 0), (''__default__'', 0), (''_apply_decorator'', 0)]"

definition Base_namespace :: "nat namespace" where
  "Base_namespace = [(''expr'', 0), (''term'', 0)]"

definition Sub_namespace :: "nat namespace" where
  "Sub_namespace = [(''expr'', 10), (''_helper'', 20), (''fresh'', 30)]"

definition Sub_class :: "nat pyclass" where
  "Sub_class = [Sub_namespace, Base_namespace, Transformer_namespace]"

section \<open>Properties\<close>

subsection \<open>The dispatcher\<close>

text \<open>
  C1. The dispatcher \<^verbatim>\<open>_call_userfunc\<close>: when the holder has no attribute named as the tag,
  the result is that of the holder's default handler applied to the tag, the children and
  the metadata. When there is such an attribute and its \<open>meta\<close> flag is set, the result is
  the handler called with the children and the metadata; when \<open>meta\<close> is not set and
  \<open>inline\<close> is, the handler called with every child as one positional argument; otherwise
  the handler called with the children as one list.
\<close>

theorem call_userfunc_dispatch:
  "(attrs self data = None \<longrightarrow>
      call_userfunc self data children md = default_handler self data children md)
   \<and> (\<forall>f. attrs self data = Some f \<and> meta f \<longrightarrow>
        call_userfunc self data children md = call f [PList children, md])
   \<and> (\<forall>f. attrs self data = Some f \<and> \<not> meta f \<and> inline f \<longrightarrow>
        call_userfunc self data children md = call f children)
   \<and> (\<forall>f. attrs self data = Some f \<and> \<not> meta f \<and> \<not> inline f \<longrightarrow>
        call_userfunc self data children md = call f [PList children])"
  by (simp add: call_userfunc_def)

theorem call_userfunc_dispatch_witness:
  "attrs example_holder ''X'' = None
   \<and> call_userfunc example_holder ''X'' [Leaf 7] (Leaf 0) = Inr (Tree ''X'' [Leaf 7] (Leaf 0))
   \<and> (\<exists>f. attrs example_holder ''M'' = Some f \<and> meta f)
   \<and> call_userfunc example_holder ''M'' [Leaf 7] (Leaf 3) = Inr (Leaf 3)
   \<and> (\<exists>f. attrs example_holder ''B'' = Some f \<and> \<not> meta f \<and> inline f)
   \<and> call_userfunc example_holder ''B'' [] (Leaf 0) = Inr (Leaf 1)
   \<and> call_userfunc example_holder ''B'' [Leaf 7] (Leaf 0) = Inl TypeError
   \<and> (\<exists>f. attrs example_holder ''A'' = Some f \<and> \<not> meta f \<and> \<not> inline f)
   \<and> call_userfunc example_holder ''A'' [Leaf 7] (Leaf 0) = Inr (PList [Leaf 7])"
  using call_userfunc_dispatch [of example_holder "''X''" "[Leaf 7]" "Leaf 0"]
    call_userfunc_dispatch [of example_holder "''M''" "[Leaf 7]" "Leaf 3"]
    call_userfunc_dispatch [of example_holder "''B''" "[]" "Leaf 0"]
    call_userfunc_dispatch [of example_holder "''B''" "[Leaf 7]" "Leaf 0"]
    call_userfunc_dispatch [of example_holder "''A''" "[Leaf 7]" "Leaf 0"]
  by (simp add: example_holder_def example_attrs_def Transformer_attrs_def object_attr_call_def
      object_attr_names_def Transformer_default_def)

subsection \<open>The copy transform without handlers\<close>

lemma call_userfunc_default:
  "attrs self data = None \<Longrightarrow> default_handler self = Transformer_default \<Longrightarrow>
     call_userfunc self data children md = Inr (Tree data children md)"
  by (simp add: call_userfunc_def Transformer_default_def)

lemma transform_identity_aux:
  fixes self :: "'a holder"
  shows "default_handler self = Transformer_default \<Longrightarrow>
      (\<forall>d \<in> set (node_tags t). attrs self d = None) \<Longrightarrow> isinstance_Tree t \<Longrightarrow>
      transform_tree self t = Inr t"
    and "default_handler self = Transformer_default \<Longrightarrow>
      (\<forall>c \<in> set cs. \<forall>d \<in> set (node_tags c). attrs self d = None) \<Longrightarrow>
      transform_children self cs = Inr cs"
proof (induction self t and self cs rule: transform_tree_transform_children.induct)
  case (1 self data cs md)
  then show ?case by (simp add: call_userfunc_default)
next
  case (5 self c cs)
  then show ?case by (cases c) auto
qed simp_all

text \<open>
  C2, as stated, fails: an instance of \<^verbatim>\<open>Transformer\<close> without any handler still has the
  methods of the class as attributes. On a node tagged \<^verbatim>\<open>transform\<close> the dispatcher finds
  the bound method \<^verbatim>\<open>self.transform\<close> and calls it with the list of children, which raises
  \<^verbatim>\<open>AttributeError\<close>.
\<close>

theorem identity_transform_counterexample:
  "transform (Transformer_instance (\<lambda>description. ())) (Tree ''transform'' [] (Leaf ())) \<noteq>
     Inr (Tree ''transform'' [] (Leaf ()))"
  by (simp add: transform_def Transformer_instance_def Transformer_attrs_def
      call_userfunc_def bound_method_def)

text \<open>
  C2, amended. For a holder whose \<^verbatim>\<open>__default__\<close> is the one of \<^verbatim>\<open>Transformer\<close> and every
  tree none of whose node tags is the name of an attribute of the holder, \<^verbatim>\<open>transform\<close>
  returns a tree equal to its input: same tags, same children in the same order, same
  metadata, leaves unchanged.
\<close>

theorem identity_transform:
  "default_handler self = Transformer_default \<Longrightarrow>
   \<forall>d \<in> set (node_tags (Tree data cs md)). attrs self d = None \<Longrightarrow>
   transform self (Tree data cs md) = Inr (Tree data cs md)"
  unfolding transform_def by (rule transform_identity_aux(1)) simp_all

theorem identity_transform_witness:
  "attrs (Transformer_instance example_objects) ''sum'' = None
   \<and> attrs (Transformer_instance example_objects) ''num'' = None
   \<and> transform (Transformer_instance example_objects)
         (Tree ''sum'' [Tree ''num'' [Leaf 1] (Leaf 0), Leaf 2] (Leaf 0)) =
       Inr (Tree ''sum'' [Tree ''num'' [Leaf 1] (Leaf 0), Leaf 2] (Leaf 0))"
proof -
  have d: "default_handler (Transformer_instance example_objects) = Transformer_default"
    by (simp add: Transformer_instance_def)
  have n: "attrs (Transformer_instance example_objects) ''sum'' = None
      \<and> attrs (Transformer_instance example_objects) ''num'' = None"
    by (simp add: Transformer_instance_def Transformer_attrs_def object_attr_call_def
        object_attr_names_def)
  then have a: "\<forall>d \<in> set (node_tags (Tree ''sum'' [Tree ''num'' [Leaf 1] (Leaf 0), Leaf 2] (Leaf 0))).
         attrs (Transformer_instance example_objects) d = None"
    by simp
  from n identity_transform [OF d a] show ?thesis by blast
qed

subsection \<open>Discarded children\<close>

lemma kept_children_Nil: "kept_children self [] = []"
  by (simp add: kept_children_def List.map_filter_simps)

lemma kept_children_Cons:
  "kept_children self (c # cs) =
     (case reduce_child self c of
        Inl e \<Rightarrow> kept_children self cs
      | Inr v \<Rightarrow> v # kept_children self cs)"
  by (simp add: kept_children_def List.map_filter_simps split: sum.splits)

lemma transform_children_Cons:
  "transform_children self (c # cs) =
     (case reduce_child self c of
        Inl Discard \<Rightarrow> transform_children self cs
      | Inl e \<Rightarrow> Inl (leaving_generator e)
      | Inr v \<Rightarrow> (case transform_children self cs of Inl e \<Rightarrow> Inl e | Inr vs \<Rightarrow> Inr (v # vs)))"
  by (simp add: reduce_child_def split: sum.splits exn.splits)

lemma transform_children_kept:
  "(\<forall>c \<in> set cs. \<forall>e. reduce_child self c = Inl e \<longrightarrow> e = Discard) \<Longrightarrow>
     transform_children self cs = Inr (kept_children self cs)"
proof (induction cs)
  case Nil
  show ?case by (simp add: kept_children_Nil)
next
  case (Cons c cs)
  then have ih: "transform_children self cs = Inr (kept_children self cs)" by simp
  from Cons.prems have "\<forall>e. reduce_child self c = Inl e \<longrightarrow> e = Discard" by simp
  then show ?case
    by (cases "reduce_child self c")
      (auto simp: transform_children_Cons kept_children_Cons ih
        simp del: transform_tree.simps transform_children.simps)
qed

lemma transform_children_Inr_kept:
  "transform_children self cs = Inr vs \<Longrightarrow> vs = kept_children self cs"
proof (induction cs arbitrary: vs)
  case Nil
  then show ?case by (simp add: kept_children_Nil)
next
  case (Cons c cs)
  then show ?case
    by (auto simp: transform_children_Cons kept_children_Cons
        simp del: transform_tree.simps transform_children.simps
        split: sum.splits exn.splits)
qed

lemma transform_children_not_Discard: "transform_children self cs \<noteq> Inl Discard"
  by (induction cs) (auto simp: leaving_generator_def split: sum.splits exn.splits)

text \<open>
  C3. When the reduction of no child raises anything but \<^verbatim>\<open>Discard\<close>, the children that the
  parent's handler receives are the results of the children whose reduction returns, in
  their order: a child whose reduction raises \<^verbatim>\<open>Discard\<close> is left out. In particular, for
  three children of which the second raises \<^verbatim>\<open>Discard\<close>, the handler receives the two
  other results, in order. A \<^verbatim>\<open>Discard\<close> raised by the dispatch on the root itself leaves
  \<^verbatim>\<open>transform\<close>.
\<close>

theorem discard_semantics:
  "((\<forall>c \<in> set cs. \<forall>e. reduce_child self c = Inl e \<longrightarrow> e = Discard) \<longrightarrow>
      transform_children self cs = Inr (kept_children self cs)
      \<and> transform self (Tree data cs md) = call_userfunc self data (kept_children self cs) md)
   \<and> (reduce_child self c1 = Inr v1 \<and> reduce_child self c2 = Inl Discard \<and> reduce_child self c3 = Inr v3 \<longrightarrow>
        kept_children self [c1, c2, c3] = [v1, v3]
        \<and> transform self (Tree data [c1, c2, c3] md) = call_userfunc self data [v1, v3] md)
   \<and> (\<forall>children. transform_children self cs = Inr children
         \<and> call_userfunc self data children md = Inl Discard \<longrightarrow>
        transform self (Tree data cs md) = Inl Discard)"
proof (intro conjI impI allI)
  assume a: "\<forall>c \<in> set cs. \<forall>e. reduce_child self c = Inl e \<longrightarrow> e = Discard"
  then show k: "transform_children self cs = Inr (kept_children self cs)"
    by (rule transform_children_kept)
  show "transform self (Tree data cs md) = call_userfunc self data (kept_children self cs) md"
    by (simp add: transform_def k)
next
  assume a: "reduce_child self c1 = Inr v1 \<and> reduce_child self c2 = Inl Discard \<and> reduce_child self c3 = Inr v3"
  then show k: "kept_children self [c1, c2, c3] = [v1, v3]"
    by (simp add: kept_children_Cons kept_children_Nil)
  from a have "transform_children self [c1, c2, c3] = Inr [v1, v3]"
    by (simp add: transform_children_Cons del: transform_children.simps(2))
  then show "transform self (Tree data [c1, c2, c3] md) = call_userfunc self data [v1, v3] md"
    by (simp add: transform_def del: transform_children.simps(2))
next
  fix children
  assume "transform_children self cs = Inr children \<and> call_userfunc self data children md = Inl Discard"
  then show "transform self (Tree data cs md) = Inl Discard"
    by (simp add: transform_def)
qed

lemma example_reduce:
  "reduce_child example_holder (Tree ''B'' [] (Leaf 0)) = Inr (Leaf 1)"
  "reduce_child example_holder (Tree ''C'' [] (Leaf 0)) = Inl Discard"
  by (simp_all add: reduce_child_def call_userfunc_def example_holder_def example_attrs_def)

theorem discard_semantics_witness:
  "reduce_child example_holder (Tree ''B'' [] (Leaf 0)) = Inr (Leaf 1)
   \<and> reduce_child example_holder (Tree ''C'' [] (Leaf 0)) = Inl Discard
   \<and> kept_children example_holder [Tree ''B'' [] (Leaf 0), Tree ''C'' [] (Leaf 0), Tree ''B'' [] (Leaf 0)]
       = [Leaf 1, Leaf 1]
   \<and> transform example_holder example_tree = Inr (PList [Leaf 1, Leaf 1])
   \<and> transform_children example_holder [] = Inr []
   \<and> call_userfunc example_holder ''C'' [] (Leaf 0) = Inl Discard
   \<and> transform example_holder (Tree ''C'' [] (Leaf 0)) = Inl Discard"
proof -
  let ?B = "Tree ''B'' [] (Leaf 0) :: nat pyval"
  let ?C = "Tree ''C'' [] (Leaf 0) :: nat pyval"
  have h1: "\<forall>c \<in> set [?B, ?C, ?B]. \<forall>e. reduce_child example_holder c = Inl e \<longrightarrow> e = Discard"
    by (simp add: example_reduce)
  have h2: "reduce_child example_holder ?B = Inr (Leaf 1) \<and> reduce_child example_holder ?C = Inl Discard
      \<and> reduce_child example_holder ?B = Inr (Leaf 1)"
    by (simp add: example_reduce)
  have h3: "transform_children example_holder [] = Inr []
      \<and> call_userfunc example_holder ''C'' [] (Leaf 0) = Inl Discard"
    by (simp add: call_userfunc_def example_holder_def example_attrs_def)
  have a: "call_userfunc example_holder ''A'' [Leaf 1, Leaf 1] (Leaf 0) = Inr (PList [Leaf 1, Leaf 1])"
    by (simp add: call_userfunc_def example_holder_def example_attrs_def)
  from h2 discard_semantics [of "[?B, ?C, ?B]" example_holder "''A''" "Leaf 0" ?B "Leaf 1" ?C ?B "Leaf 1"]
  have "kept_children example_holder [?B, ?C, ?B] = [Leaf 1, Leaf 1]
      \<and> transform example_holder (Tree ''A'' [?B, ?C, ?B] (Leaf 0)) =
          call_userfunc example_holder ''A'' [Leaf 1, Leaf 1] (Leaf 0)"
    by blast
  moreover from h3 discard_semantics [of "[]" example_holder "''C''" "Leaf 0"]
  have "transform example_holder ?C = Inl Discard" by blast
  moreover from h1 discard_semantics [of "[?B, ?C, ?B]" example_holder "''A''" "Leaf 0"]
  have "transform_children example_holder [?B, ?C, ?B] =
      Inr (kept_children example_holder [?B, ?C, ?B])"
    by blast
  ultimately show ?thesis using h2 h3 a by (simp add: example_tree_def)
qed

subsection \<open>Chains\<close>

lemma chain_loop_append:
  "chain_loop (ts @ [t]) tree =
     (case chain_loop ts tree of Inl e \<Rightarrow> Inl e | Inr v \<Rightarrow> strategy_transform t v)"
  by (induction ts arbitrary: tree) (auto split: sum.splits)

text \<open>
  C4. The chain of \<open>t1\<close> and \<open>t2\<close> transforms a tree as \<open>t2\<close> transforms the result of \<open>t1\<close>
  (an exception of \<open>t1\<close> ends the chain). A chain applies its stages from left to right,
  each on the result of the one before, and composing a chain with a further strategy
  appends that strategy at the end.
\<close>

theorem chain_composition:
  "strategy_transform (Transformer_mul t1 t2) tree =
     (case transform t1 tree of Inl e \<Rightarrow> Inl e | Inr v \<Rightarrow> strategy_transform t2 v)
   \<and> strategy_transform (TransformerChain []) tree = Inr tree
   \<and> strategy_transform (TransformerChain (t # ts)) tree =
       (case strategy_transform t tree of
          Inl e \<Rightarrow> Inl e
        | Inr v \<Rightarrow> strategy_transform (TransformerChain ts) v)
   \<and> TransformerChain_mul ts other = TransformerChain (ts @ [other])
   \<and> strategy_transform (TransformerChain_mul ts other) tree =
       (case strategy_transform (TransformerChain ts) tree of
          Inl e \<Rightarrow> Inl e
        | Inr v \<Rightarrow> strategy_transform other v)"
  by (simp add: Transformer_mul_def TransformerChain_mul_def chain_loop_append split: sum.splits)

theorem chain_composition_witness:
  "strategy_transform
     (Transformer_mul example_holder (Transformer (Transformer_instance example_objects))) example_tree
     = Inl AttributeError
   \<and> transform example_holder example_tree = Inr (PList [Leaf 1, Leaf 1])
   \<and> strategy_transform (Transformer (Transformer_instance example_objects)) (PList [Leaf 1, Leaf 1])
     = Inl AttributeError
   \<and> strategy_transform
       (Transformer_mul (Transformer_instance example_objects) (Transformer example_holder)) example_tree
     = Inr (PList [Leaf 1, Leaf 1])"
  using chain_composition [of example_holder "Transformer (Transformer_instance example_objects)" example_tree]
    chain_composition [of "Transformer_instance example_objects" "Transformer example_holder" example_tree]
  by (simp add: example_tree_def transform_def call_userfunc_def example_holder_def
      example_attrs_def Transformer_instance_def Transformer_attrs_def object_attr_call_def
      object_attr_names_def Transformer_default_def)

subsection \<open>The in-place recursive transform\<close>

lemma inplace_result:
  "fst (inplace_transform_tree self p t st) = transform_tree self t"
  "fst (inplace_transform_children self p i cs st) = transform_children self cs"
proof (induction self p t st and self p i cs st rule: inplace_transform_tree_inplace_transform_children.induct)
  case (1 self p data cs md st)
  then show ?case by (auto split: prod.splits sum.splits)
next
  case (5 self p i c cs st)
  show ?case
  proof (cases "isinstance_Tree c")
    case False
    with 5(4) show ?thesis by (auto split: prod.splits sum.splits)
  next
    case True
    obtain r st1 where r: "inplace_transform_tree self (p @ [i]) c st = (r, st1)" by force
    with 5(1)[OF True] have r': "transform_tree self c = r" by simp
    show ?thesis
    proof (cases r)
      case (Inr v)
      with 5(3)[OF True r[symmetric] Inr] True r r' show ?thesis
        by (auto split: prod.splits sum.splits)
    next
      case (Inl e)
      show ?thesis
      proof (cases "e = Discard")
        case True
        with 5(2)[OF \<open>isinstance_Tree c\<close> r[symmetric]] Inl \<open>isinstance_Tree c\<close> r r' show ?thesis
          by (auto split: prod.splits sum.splits)
      next
        case False
        with Inl \<open>isinstance_Tree c\<close> r r' show ?thesis
          by (cases e) (auto split: prod.splits sum.splits)
      qed
    qed
  qed
qed simp_all

lemma inplace_frame:
  "(\<forall>q. r \<noteq> p @ q) \<Longrightarrow> snd (inplace_transform_tree self p t st) r = st r"
  "(\<forall>j q. i \<le> j \<longrightarrow> r \<noteq> p @ j # q) \<Longrightarrow> snd (inplace_transform_children self p i cs st) r = st r"
proof (induction self p t st and self p i cs st rule: inplace_transform_tree_inplace_transform_children.induct)
  case (1 self p data cs md st)
  from 1(2) have a: "\<forall>j q. 0 \<le> j \<longrightarrow> r \<noteq> p @ j # q" by simp
  from 1(2) have b: "r \<noteq> p" by (metis append_Nil2)
  from 1(1)[OF a] b show ?case by (auto split: prod.splits sum.splits)
next
  case (5 self p i c cs st)
  from 5(5) have rest: "\<forall>j q. Suc i \<le> j \<longrightarrow> r \<noteq> p @ j # q" by simp
  from 5(5) have sub: "\<forall>q. r \<noteq> (p @ [i]) @ q" by simp
  show ?case
  proof (cases "isinstance_Tree c")
    case False
    with 5(4)[OF False rest] show ?thesis by (auto split: prod.splits sum.splits)
  next
    case True
    obtain x st1 where x: "inplace_transform_tree self (p @ [i]) c st = (x, st1)" by force
    with 5(1)[OF True sub] have st1: "st1 r = st r" by simp
    show ?thesis
    proof (cases x)
      case (Inr v)
      with 5(3)[OF True x[symmetric] Inr rest] True x st1 show ?thesis
        by (auto split: prod.splits sum.splits)
    next
      case (Inl e)
      show ?thesis
      proof (cases "e = Discard")
        case True
        with 5(2)[OF \<open>isinstance_Tree c\<close> x[symmetric] _ _ rest] Inl \<open>isinstance_Tree c\<close> x st1 show ?thesis
          by (auto split: prod.splits sum.splits)
      next
        case False
        with Inl \<open>isinstance_Tree c\<close> x st1 show ?thesis
          by (cases e) (auto split: prod.splits sum.splits)
      qed
    qed
  qed
qed simp_all

lemma inplace_children_Inr:
  "inplace_transform_children self p i cs st = (Inr vs, st') \<Longrightarrow> transform_children self cs = Inr vs"
  using inplace_result(2)[of self p i cs st] by simp

lemma inplace_store:
  "fst (inplace_transform_tree self p t st) = Inr v \<or> fst (inplace_transform_tree self p t st) = Inl Discard \<Longrightarrow>
     subtree_at t q = Some (Tree d cs' md') \<Longrightarrow>
     \<exists>children. transform_children self cs' = Inr children \<and>
        snd (inplace_transform_tree self p t st) (p @ q) = Some children"
  "fst (inplace_transform_children self p i cs st) = Inr vs \<Longrightarrow> j < length cs \<Longrightarrow>
     subtree_at (cs ! j) q = Some (Tree d cs' md') \<Longrightarrow>
     \<exists>children. transform_children self cs' = Inr children \<and>
        snd (inplace_transform_children self p i cs st) (p @ (i + j) # q) = Some children"
proof (induction self p t st and self p i cs st arbitrary: v q d cs' md' and vs j q d cs' md'
    rule: inplace_transform_tree_inplace_transform_children.induct)
  case (1 self p data cs md st)
  obtain x st1 where x: "inplace_transform_children self p 0 cs st = (x, st1)" by force
  have "x \<noteq> Inl Discard"
    using inplace_result(2)[of self p 0 cs st] x transform_children_not_Discard[of self cs] by auto
  with 1(2) x obtain children where ch: "x = Inr children"
    by (cases x) (auto split: prod.splits sum.splits)
  have tc: "transform_children self cs = Inr children"
    using inplace_children_Inr x ch by blast
  have st': "snd (inplace_transform_tree self p (Tree data cs md) st) = st1(p \<mapsto> children)"
    using x ch by simp
  show ?case
  proof (cases q)
    case Nil
    with 1(3) have "cs' = cs" by simp
    with tc st' Nil show ?thesis by simp
  next
    case (Cons j q')
    with 1(3) have j: "j < length cs" and sub: "subtree_at (cs ! j) q' = Some (Tree d cs' md')"
      by (auto split: if_splits)
    have "fst (inplace_transform_children self p 0 cs st) = Inr children" using x ch by simp
    from 1(1)[OF this j sub] x
    obtain children' where "transform_children self cs' = Inr children'"
      and "st1 (p @ j # q') = Some children'" by auto
    then show ?thesis using st' Cons by auto
  qed
next
  case (2 self p x st)
  then show ?case by simp
next
  case (3 self p xs st)
  then show ?case by simp
next
  case (4 self p i st)
  then show ?case by simp
next
  case (5 self p i c cs st)
  show ?case
  proof (cases "isinstance_Tree c")
    case False
    then have none: "subtree_at c q = None" for q by (cases c; cases q) auto
    obtain x st1 where x: "inplace_transform_children self p (Suc i) cs st = (x, st1)" by force
    with 5(5) False obtain vs' where vs': "x = Inr vs'" by (cases x) auto
    show ?thesis
    proof (cases j)
      case 0
      with 5(7) none show ?thesis by simp
    next
      case (Suc j')
      with 5(6,7) have j': "j' < length cs" and sub: "subtree_at (cs ! j') q = Some (Tree d cs' md')" by auto
      have "fst (inplace_transform_children self p (Suc i) cs st) = Inr vs'" using x vs' by simp
      from 5(4)[OF False this j' sub] x vs' False Suc show ?thesis by auto
    qed
  next
    case True
    obtain x st1 where x: "inplace_transform_tree self (p @ [i]) c st = (x, st1)" by force
    obtain y st2 where y: "inplace_transform_children self p (Suc i) cs st1 = (y, st2)" by force
    have xc: "(\<exists>v. x = Inr v) \<or> x = Inl Discard"
      using 5(5) True x by (cases x; cases "projl x") (auto split: prod.splits sum.splits)
    have yv: "\<exists>vs'. y = Inr vs'"
      using 5(5) True x y xc by (cases y) (auto split: prod.splits sum.splits)
    have final: "snd (inplace_transform_children self p i (c # cs) st) = st2"
      using True x y xc yv by (auto split: prod.splits sum.splits)
    show ?thesis
    proof (cases j)
      case 0
      with 5(7) have sub: "subtree_at c q = Some (Tree d cs' md')" by simp
      have "fst (inplace_transform_tree self (p @ [i]) c st) = Inr (projr x) \<or>
            fst (inplace_transform_tree self (p @ [i]) c st) = Inl Discard"
        using x xc by auto
      from 5(1)[OF True this sub] x
      obtain children where tc: "transform_children self cs' = Inr children"
        and s1: "st1 ((p @ [i]) @ q) = Some children" by auto
      have "\<forall>k q'. Suc i \<le> k \<longrightarrow> p @ i # q \<noteq> p @ k # q'" by simp
      from inplace_frame(2)[OF this, of self cs st1] y
      have "st2 (p @ i # q) = st1 (p @ i # q)" by simp
      with tc s1 final 0 show ?thesis by simp
    next
      case (Suc j')
      with 5(6,7) have j': "j' < length cs" and sub: "subtree_at (cs ! j') q = Some (Tree d cs' md')" by auto
      from yv obtain vs' where vs': "y = Inr vs'" by blast
      have fy: "fst (inplace_transform_children self p (Suc i) cs st1) = Inr vs'" using y vs' by simp
      from xc show ?thesis
      proof
        assume "\<exists>v. x = Inr v"
        then obtain v where v: "x = Inr v" by blast
        from 5(3)[OF True x[symmetric] v fy j' sub] y final Suc show ?thesis by simp
      next
        assume d: "x = Inl Discard"
        from 5(2)[OF True x[symmetric] d _ fy j' sub] y final Suc show ?thesis by simp
      qed
    qed
  qed
qed

text \<open>
  C8. \<^verbatim>\<open>Transformer_InPlaceRecursive.transform\<close> and \<^verbatim>\<open>Transformer.transform\<close>, with the same
  handlers, give the same result on every tree (the same value, or the same exception); this
  covers the trees on which no handler raises \<^verbatim>\<open>Discard\<close>. The copy transform assigns
  nothing. When the transform returns a value, the in-place variant has assigned, to every
  node of the input, the reduced children of that node as its field \<^verbatim>\<open>children\<close>.
\<close>

theorem inplace_copy_equivalence:
  "fst (inplace_transform self t st) = transform self t
   \<and> (\<forall>v q d cs md. transform self t = Inr v \<and> subtree_at t q = Some (Tree d cs md) \<longrightarrow>
        (\<exists>children. transform_children self cs = Inr children
           \<and> snd (inplace_transform self t st) q = Some children))"
proof (intro conjI allI impI)
  show r: "fst (inplace_transform self t st) = transform self t"
    by (simp add: inplace_transform_def transform_def inplace_result(1))
  fix v q d cs md
  assume a: "transform self t = Inr v \<and> subtree_at t q = Some (Tree d cs md)"
  then have "fst (inplace_transform_tree self [] t st) = Inr v
      \<or> fst (inplace_transform_tree self [] t st) = Inl Discard"
    by (simp add: inplace_result(1) transform_def)
  from inplace_store(1)[OF this, of q d cs md] a
  show "\<exists>children. transform_children self cs = Inr children
      \<and> snd (inplace_transform self t st) q = Some children"
    by (simp add: inplace_transform_def)
qed

theorem inplace_copy_equivalence_witness:
  "transform example_holder example_tree = Inr (PList [Leaf 1, Leaf 1])
   \<and> fst (inplace_transform example_holder example_tree (store_of example_tree)) =
       Inr (PList [Leaf 1, Leaf 1])
   \<and> store_of example_tree [] =
       Some [Tree ''B'' [] (Leaf 0), Tree ''C'' [] (Leaf 0), Tree ''B'' [] (Leaf 0)]
   \<and> subtree_at example_tree [] = Some example_tree
   \<and> transform_children example_holder
       [Tree ''B'' [] (Leaf 0), Tree ''C'' [] (Leaf 0), Tree ''B'' [] (Leaf 0)] = Inr [Leaf 1, Leaf 1]
   \<and> snd (inplace_transform example_holder example_tree (store_of example_tree)) [] =
       Some [Leaf 1, Leaf 1]"
proof -
  have t: "transform example_holder example_tree = Inr (PList [Leaf 1, Leaf 1])"
    by (simp add: example_tree_def transform_def call_userfunc_def example_holder_def
        example_attrs_def)
  have s: "subtree_at example_tree [] = Some example_tree"
    by (simp add: example_tree_def)
  have o: "store_of example_tree [] =
       Some [Tree ''B'' [] (Leaf 0), Tree ''C'' [] (Leaf 0), Tree ''B'' [] (Leaf 0)]"
    by (simp add: store_of_def example_tree_def)
  have c: "transform_children example_holder
       [Tree ''B'' [] (Leaf 0), Tree ''C'' [] (Leaf 0), Tree ''B'' [] (Leaf 0)] = Inr [Leaf 1, Leaf 1]"
    by (simp add: call_userfunc_def example_holder_def example_attrs_def)
  note e = inplace_copy_equivalence [of example_holder example_tree "store_of example_tree"]
  from e t have f: "fst (inplace_transform example_holder example_tree (store_of example_tree)) =
       Inr (PList [Leaf 1, Leaf 1])"
    by simp
  from e t s have "\<exists>children. transform_children example_holder
        [Tree ''B'' [] (Leaf 0), Tree ''C'' [] (Leaf 0), Tree ''B'' [] (Leaf 0)] = Inr children
      \<and> snd (inplace_transform example_holder example_tree (store_of example_tree)) [] = Some children"
    unfolding example_tree_def by blast
  with c have "snd (inplace_transform example_holder example_tree (store_of example_tree)) [] =
       Some [Leaf 1, Leaf 1]"
    by auto
  with t f o s c show ?thesis by blast
qed

subsection \<open>The nodes that one transform dispatches\<close>

lemma traced_Cons:
  "traced_transform_children self p i (c # cs) =
     (if isinstance_Tree c then
        (case traced_transform_tree self (p @ [i]) c of (x, tr) \<Rightarrow>
           if x = Inl Discard then
             (case traced_transform_children self p (Suc i) cs of (r, tr') \<Rightarrow> (r, tr @ tr'))
           else (case x of Inl e \<Rightarrow> (Inl (leaving_generator e), tr)
                 | Inr v \<Rightarrow> (case traced_transform_children self p (Suc i) cs of
                       (Inl e, tr') \<Rightarrow> (Inl e, tr @ tr')
                     | (Inr vs, tr') \<Rightarrow> (Inr (v # vs), tr @ tr'))))
      else
        (case traced_transform_children self p (Suc i) cs of
           (Inl e, tr') \<Rightarrow> (Inl e, tr')
         | (Inr vs, tr') \<Rightarrow> (Inr (c # vs), tr')))"
  by (simp split: prod.splits sum.splits exn.splits)

lemma traced_result:
  "fst (traced_transform_tree self p t) = transform_tree self t"
  "fst (traced_transform_children self p i cs) = transform_children self cs"
proof (induction self p t and self p i cs rule: traced_transform_tree_traced_transform_children.induct)
  case (1 self p data cs md)
  then show ?case by (auto split: prod.splits sum.splits)
next
  case (5 self p i c cs)
  show ?case
  proof (cases "isinstance_Tree c")
    case False
    with 5(4) show ?thesis by (auto split: prod.splits sum.splits)
  next
    case True
    obtain x tr where x: "traced_transform_tree self (p @ [i]) c = (x, tr)" by force
    with 5(1)[OF True] have x': "transform_tree self c = x" by simp
    show ?thesis
    proof (cases x)
      case (Inr v)
      with 5(3)[OF True x[symmetric] Inr] True x x' show ?thesis
        by (auto split: prod.splits sum.splits)
    next
      case (Inl e)
      show ?thesis
      proof (cases "e = Discard")
        case True
        with 5(2)[OF \<open>isinstance_Tree c\<close> x[symmetric]] Inl \<open>isinstance_Tree c\<close> x x' show ?thesis
          by (auto split: prod.splits sum.splits)
      next
        case False
        with Inl \<open>isinstance_Tree c\<close> x x' show ?thesis
          by (cases e) (auto split: prod.splits sum.splits)
      qed
    qed
  qed
qed simp_all

lemma traced_events:
  "(r, d) \<in> set (snd (traced_transform_tree self p t)) \<Longrightarrow>
     \<exists>q cs' md'. r = p @ q \<and> subtree_at t q = Some (Tree d cs' md')"
  "(r, d) \<in> set (snd (traced_transform_children self p i cs)) \<Longrightarrow>
     \<exists>j q cs' md'. r = p @ (i + j) # q \<and> j < length cs \<and> subtree_at (cs ! j) q = Some (Tree d cs' md')"
proof (induction self p t and self p i cs arbitrary: r d and r d
    rule: traced_transform_tree_traced_transform_children.induct)
  case (1 self p data cs md)
  obtain x tr where x: "traced_transform_children self p 0 cs = (x, tr)" by force
  with 1(2) have "(r, d) \<in> set tr \<or> (r = p \<and> d = data)"
    by (cases x) auto
  then show ?case
  proof
    assume "(r, d) \<in> set tr"
    with 1(1)[of r d] x obtain j q cs' md' where
      "r = p @ j # q" "j < length cs" "subtree_at (cs ! j) q = Some (Tree d cs' md')" by auto
    then have "r = p @ (j # q) \<and> subtree_at (Tree data cs md) (j # q) = Some (Tree d cs' md')" by simp
    then show ?thesis by blast
  next
    assume "r = p \<and> d = data"
    then have "r = p @ [] \<and> subtree_at (Tree data cs md) [] = Some (Tree d cs md)" by simp
    then show ?thesis by blast
  qed
next
  case (5 self p i c cs)
  obtain y tr' where y: "traced_transform_children self p (Suc i) cs = (y, tr')" by force
  have rest: "\<exists>j q cs' md'. r = p @ (i + j) # q \<and> j < length (c # cs) \<and>
        subtree_at ((c # cs) ! j) q = Some (Tree d cs' md')"
    if ih: "\<And>r d. (r, d) \<in> set tr' \<Longrightarrow> \<exists>j q cs' md'. r = p @ (Suc i + j) # q \<and> j < length cs \<and>
        subtree_at (cs ! j) q = Some (Tree d cs' md')" and mem: "(r, d) \<in> set tr'"
  proof -
    from ih[OF mem] obtain j q cs' md' where
      "r = p @ (Suc i + j) # q" "j < length cs" "subtree_at (cs ! j) q = Some (Tree d cs' md')" by blast
    then have "r = p @ (i + Suc j) # q \<and> Suc j < length (c # cs) \<and>
        subtree_at ((c # cs) ! Suc j) q = Some (Tree d cs' md')" by simp
    then show ?thesis by blast
  qed
  show ?case
  proof (cases "isinstance_Tree c")
    case False
    with 5(5) y have mem: "(r, d) \<in> set tr'" by (cases y) auto
    have "\<And>r d. (r, d) \<in> set tr' \<Longrightarrow> \<exists>j q cs' md'. r = p @ (Suc i + j) # q \<and> j < length cs \<and>
        subtree_at (cs ! j) q = Some (Tree d cs' md')"
      using 5(4)[OF False] y by simp
    from rest[OF this mem] show ?thesis .
  next
    case True
    obtain x tr where x: "traced_transform_tree self (p @ [i]) c = (x, tr)" by force
    have mem: "(r, d) \<in> set tr \<or> ((x = Inl Discard \<or> (\<exists>v. x = Inr v)) \<and> (r, d) \<in> set tr')"
      using 5(5) True x y unfolding traced_Cons
      by (cases x; cases y) (auto split: if_splits)
    then show ?thesis
    proof
      assume "(r, d) \<in> set tr"
      with 5(1)[OF True, of r d] x obtain q cs' md' where
        "r = (p @ [i]) @ q" "subtree_at c q = Some (Tree d cs' md')" by auto
      then have "r = p @ (i + 0) # q \<and> 0 < length (c # cs) \<and>
          subtree_at ((c # cs) ! 0) q = Some (Tree d cs' md')" by simp
      then show ?thesis by blast
    next
      assume a: "(x = Inl Discard \<or> (\<exists>v. x = Inr v)) \<and> (r, d) \<in> set tr'"
      then have mem': "(r, d) \<in> set tr'" by simp
      from a have "x = Inl Discard \<or> (\<exists>v. x = Inr v)" by simp
      then have "\<And>r d. (r, d) \<in> set tr' \<Longrightarrow> \<exists>j q cs' md'. r = p @ (Suc i + j) # q \<and> j < length cs \<and>
        subtree_at (cs ! j) q = Some (Tree d cs' md')"
      proof
        assume d: "x = Inl Discard"
        fix r d
        assume "(r, d) \<in> set tr'"
        with 5(2)[OF True x[symmetric] d, of r d] y show "\<exists>j q cs' md'. r = p @ (Suc i + j) # q \<and> j < length cs \<and>
        subtree_at (cs ! j) q = Some (Tree d cs' md')" by simp
      next
        assume "\<exists>v. x = Inr v"
        then obtain v where v: "x = Inr v" by blast
        fix r d
        assume "(r, d) \<in> set tr'"
        with 5(3)[OF True x[symmetric] v, of r d] y show "\<exists>j q cs' md'. r = p @ (Suc i + j) # q \<and> j < length cs \<and>
        subtree_at (cs ! j) q = Some (Tree d cs' md')" by simp
      qed
      from rest[OF this mem'] show ?thesis .
    qed
  qed
qed simp_all

lemma traced_tree_shape:
  "snd (traced_transform_tree self p (Tree data cs md)) = snd (traced_transform_children self p 0 cs)
   \<or> snd (traced_transform_tree self p (Tree data cs md)) =
       snd (traced_transform_children self p 0 cs) @ [(p, data)]"
  by (simp split: prod.splits sum.splits)

lemma traced_children_shape:
  "snd (traced_transform_children self p i (c # cs)) =
       (if isinstance_Tree c then snd (traced_transform_tree self (p @ [i]) c) else [])
   \<or> snd (traced_transform_children self p i (c # cs)) =
       (if isinstance_Tree c then snd (traced_transform_tree self (p @ [i]) c) else []) @
       snd (traced_transform_children self p (Suc i) cs)"
  unfolding traced_Cons by (simp split: prod.splits sum.splits)

lemma traced_disjoint:
  "fst ` set (snd (traced_transform_tree self (p @ [i]) c)) \<inter>
      fst ` set (snd (traced_transform_children self p (Suc i) cs)) = {}"
proof (rule ccontr)
  assume "\<not> ?thesis"
  then obtain r d d' where a: "(r, d) \<in> set (snd (traced_transform_tree self (p @ [i]) c))"
    and b: "(r, d') \<in> set (snd (traced_transform_children self p (Suc i) cs))" by auto
  from traced_events(1)[OF a] obtain q where "r = (p @ [i]) @ q" by blast
  moreover from traced_events(2)[OF b] obtain j q' where "r = p @ (Suc i + j) # q'" by blast
  ultimately show False by simp
qed

lemma traced_children_distinct:
  assumes "\<And>c p. c \<in> set cs \<Longrightarrow> distinct (map fst (snd (traced_transform_tree self p c)))"
  shows "distinct (map fst (snd (traced_transform_children self p i cs)))"
  using assms
proof (induction cs arbitrary: i)
  case Nil
  show ?case by simp
next
  case (Cons c cs)
  have rest: "distinct (map fst (snd (traced_transform_children self p (Suc i) cs)))"
    by (rule Cons.IH) (simp add: Cons.prems)
  have first: "distinct (map fst (snd (traced_transform_tree self (p @ [i]) c)))"
    by (rule Cons.prems) simp
  let ?first = "if isinstance_Tree c then snd (traced_transform_tree self (p @ [i]) c) else []"
  have f: "distinct (map fst ?first)" using first by simp
  have fr: "distinct (map fst (?first @ snd (traced_transform_children self p (Suc i) cs)))"
    using first rest traced_disjoint[of self p i c cs] by simp
  from traced_children_shape[of self p i c cs] f fr show ?case
    by (elim disjE) simp_all
qed

lemma traced_tree_distinct:
  "distinct (map fst (snd (traced_transform_tree self p t)))"
proof (induction t arbitrary: p)
  case (Leaf x)
  show ?case by simp
next
  case (PList xs)
  show ?case by simp
next
  case (Tree data cs md)
  have "p \<notin> fst ` set (snd (traced_transform_children self p 0 cs))"
  proof
    assume "p \<in> fst ` set (snd (traced_transform_children self p 0 cs))"
    then obtain d where "(p, d) \<in> set (snd (traced_transform_children self p 0 cs))" by auto
    from traced_events(2)[OF this] show False by auto
  qed
  moreover have ch: "distinct (map fst (snd (traced_transform_children self p 0 cs)))"
    using Tree.IH(1) by (rule traced_children_distinct)
  ultimately have "distinct (map fst (snd (traced_transform_children self p 0 cs) @ [(p, data)]))"
    by simp
  with ch traced_tree_shape[of self p data cs md] show ?case
    by (elim disjE) simp_all
qed

text \<open>
  C10. The copy transform dispatches on nodes of the input only: every recorded call of
  \<^verbatim>\<open>_call_userfunc\<close> is made for a path at which the input has a node with the dispatched tag,
  and no path occurs twice, so every node of the input is dispatched at most once. Recording
  the calls does not change the result. The children that a handler receives are the values
  that the reductions of the children returned, as they are: a returned tree is not
  traversed again.
\<close>

theorem dispatch_only_original_nodes:
  "fst (traced_transform_tree self [] t) = transform self t
   \<and> distinct (map fst (snd (traced_transform_tree self [] t)))
   \<and> (\<forall>(q, d) \<in> set (snd (traced_transform_tree self [] t)).
        \<exists>cs md. subtree_at t q = Some (Tree d cs md))
   \<and> (\<forall>cs vs. transform_children self cs = Inr vs \<longrightarrow> vs = kept_children self cs)"
proof (intro conjI allI impI ballI)
  show "fst (traced_transform_tree self [] t) = transform self t"
    by (simp add: traced_result(1) transform_def)
  show "distinct (map fst (snd (traced_transform_tree self [] t)))"
    by (rule traced_tree_distinct)
next
  fix x
  assume x: "x \<in> set (snd (traced_transform_tree self [] t))"
  obtain q d where qd: "x = (q, d)" by (cases x)
  with x have "(q, d) \<in> set (snd (traced_transform_tree self [] t))" by simp
  from traced_events(1)[OF this] have "\<exists>cs md. subtree_at t q = Some (Tree d cs md)" by simp
  with qd show "case x of (q, d) \<Rightarrow> \<exists>cs md. subtree_at t q = Some (Tree d cs md)" by simp
next
  fix cs vs
  assume "transform_children self cs = Inr vs"
  then show "vs = kept_children self cs" by (rule transform_children_Inr_kept)
qed

theorem dispatch_only_original_nodes_witness:
  "traced_transform_tree example_holder [] (Tree ''A'' [Tree ''W'' [] (Leaf 0), Leaf 5] (Leaf 0)) =
     (Inr (PList [Tree ''C'' [] (Leaf 0), Leaf 5]), [([0], ''W''), ([], ''A'')])
   \<and> transform example_holder (Tree ''A'' [Tree ''W'' [] (Leaf 0), Leaf 5] (Leaf 0)) =
       Inr (PList [Tree ''C'' [] (Leaf 0), Leaf 5])
   \<and> transform example_holder (Tree ''C'' [] (Leaf 0)) = Inl Discard
   \<and> subtree_at (Tree ''A'' [Tree ''W'' [] (Leaf 0), Leaf 5] (Leaf (0::nat))) [0] =
       Some (Tree ''W'' [] (Leaf 0))"
proof -
  let ?t = "Tree ''A'' [Tree ''W'' [] (Leaf 0), Leaf 5] (Leaf 0) :: nat pyval"
  have tr: "traced_transform_tree example_holder [] ?t =
     (Inr (PList [Tree ''C'' [] (Leaf 0), Leaf 5]), [([0], ''W''), ([], ''A'')])"
    by (simp add: call_userfunc_def example_holder_def example_attrs_def)
  have c: "transform example_holder (Tree ''C'' [] (Leaf 0)) = Inl Discard"
    by (simp add: transform_def call_userfunc_def example_holder_def example_attrs_def)
  from dispatch_only_original_nodes [of example_holder ?t] tr
  have "transform example_holder ?t = Inr (PList [Tree ''C'' [] (Leaf 0), Leaf 5])
      \<and> (\<exists>cs md. subtree_at ?t [0] = Some (Tree ''W'' cs md))"
    by simp
  with tr c show ?thesis by simp
qed

subsection \<open>Incompatible handler shapes\<close>

text \<open>
  C9. Requesting both \<open>inline\<close> and \<open>meta\<close> fails when the decorator is constructed
  (\<^verbatim>\<open>visitor_args\<close> raises \<^verbatim>\<open>ValueError\<close>) and when the function-level decorator is applied
  (\<^verbatim>\<open>_visitor_args_func_dec\<close> fails its assertion). With one flag or none the decorator is
  constructed, and applied to a function it returns the wrapper of \<^verbatim>\<open>smart_decorator\<close> with
  the two flags recorded. The dispatcher raises no error of its own for a handler that
  carries both flags: it calls the handler with the children and the metadata.
\<close>

theorem visitor_args_incompatible:
  "visitor_args sd True True = Inl ValueError
   \<and> visitor_args_func_dec sd func True True = Inl AssertionError
   \<and> (\<not> (inl \<and> mt) \<longrightarrow>
        (\<exists>dec. visitor_args sd inl mt = Inr dec
           \<and> (\<forall>g f. sd g create_decorator = Inr f \<longrightarrow>
                 dec (Plain g) = Inr (Plain (f\<lparr>inline := inl, meta := mt\<rparr>)))))
   \<and> (\<forall>f. attrs self data = Some f \<and> meta f \<and> inline f \<longrightarrow>
        call_userfunc self data children md = call f [PList children, md])"
  by (auto simp: visitor_args_def visitor_args_func_dec_def apply_decorator_def call_userfunc_def)

theorem visitor_args_incompatible_witness:
  "(\<exists>dec. visitor_args smart_decorator_function True False = Inr dec
      \<and> dec (Plain \<lparr>meta = False, inline = False, call = (\<lambda>args. Inr (PList args))\<rparr>) =
          Inr (Plain \<lparr>meta = False, inline = True, call = (\<lambda>args. Inr (PList args :: nat pyval))\<rparr>))
   \<and> (\<exists>dec. visitor_args smart_decorator_function False True = Inr dec
      \<and> dec (Plain \<lparr>meta = False, inline = False, call = (\<lambda>args. Inr (PList args))\<rparr>) =
          Inr (Plain \<lparr>meta = True, inline = False, call = (\<lambda>args. Inr (PList args :: nat pyval))\<rparr>))
   \<and> (\<exists>dec. visitor_args smart_decorator_function False False = Inr dec
      \<and> dec (Plain \<lparr>meta = False, inline = False, call = (\<lambda>args. Inr (PList args))\<rparr>) =
          Inr (Plain \<lparr>meta = False, inline = False, call = (\<lambda>args. Inr (PList args :: nat pyval))\<rparr>))
   \<and> visitor_args (smart_decorator_function :: nat smart_decorator) True True = Inl ValueError"
proof -
  let ?g = "\<lparr>meta = False, inline = False, call = (\<lambda>args. Inr (PList args :: nat pyval))\<rparr>"
  have sd: "smart_decorator_function ?g create_decorator = Inr ?g"
    by (simp add: smart_decorator_function_def create_decorator_def)
  note t = visitor_args_incompatible [of smart_decorator_function ?g]
  from t [of True False] sd have "\<exists>dec. visitor_args smart_decorator_function True False = Inr dec
      \<and> dec (Plain ?g) = Inr (Plain (?g\<lparr>inline := True, meta := False\<rparr>))"
    by blast
  moreover from t [of False True] sd have "\<exists>dec. visitor_args smart_decorator_function False True = Inr dec
      \<and> dec (Plain ?g) = Inr (Plain (?g\<lparr>inline := False, meta := True\<rparr>))"
    by blast
  moreover from t [of False False] sd have "\<exists>dec. visitor_args smart_decorator_function False False = Inr dec
      \<and> dec (Plain ?g) = Inr (Plain (?g\<lparr>inline := False, meta := False\<rparr>))"
    by blast
  moreover from t [of True True] have "visitor_args (smart_decorator_function :: nat smart_decorator) True True = Inl ValueError"
    by blast
  ultimately show ?thesis by simp
qed

subsection \<open>The interpreter\<close>









lemma eager_lookup:
  "lookup eager_interpreter ''X'' = Some visit_children_first"
  "lookup eager_interpreter ''Y'' = Some (count_call ''Y'')"
  "lookup eager_interpreter ''Z'' = Some (count_call ''Z'')"
  "lookup eager_interpreter ''P'' = None"
  "default_method eager_interpreter = Interpreter_default"
  by (simp_all add: eager_interpreter_def Interpreter_lookup_def object_attr_call_def
      object_attr_names_def)

lemma lazy_lookup:
  "lookup lazy_interpreter ''X'' = Some visit_first_child"
  "lookup lazy_interpreter ''Y'' = Some (count_call ''Y'')"
  "lookup lazy_interpreter ''Z'' = Some (count_call ''Z'')"
  by (simp_all add: lazy_interpreter_def)


text \<open>
  C7, as stated, fails: \<^verbatim>\<open>visit_children\<close> visits every child that is a node. When the
  handler of \<^verbatim>\<open>X\<close> calls it and returns the first result only, the handler of \<^verbatim>\<open>Z\<close> has
  run.
\<close>

theorem interpreter_laziness_counterexample:
  "visit (Suc (Suc 0)) eager_interpreter XYZ_tree [] = (Inr (Leaf 0), [''Y'', ''Z''])"
  by (simp add: XYZ_tree_def eager_lookup visit_children_first_def visit_children_with_def
      count_call_def)

text \<open>
  C7, amended. \<^verbatim>\<open>visit\<close> on a node whose tag has a handler is the call of that handler and
  nothing else: it does not descend by itself. For a node with the children \<open>y\<close> and \<open>z\<close>
  whose handler visits its first child only (\<^verbatim>\<open>self.visit(tree.children[0])\<close>) and returns
  that result, \<^verbatim>\<open>visit\<close> is the visit of \<open>y\<close>: no handler runs for \<open>z\<close>. A handler that
  does not use the instance decides the result and the state alone. \<^verbatim>\<open>visit_children\<close>, when a
  handler calls it, visits \<open>y\<close> and then \<open>z\<close>.
\<close>

theorem interpreter_no_automatic_descent:
  "(\<forall>f. lookup self data = Some f \<longrightarrow>
      visit (Suc n) self (Tree data cs md) =
        f \<lparr>self_visit = visit n self, self_visit_children = visit_children_with (visit n self)\<rparr>
          (Tree data cs md))
   \<and> (lookup self data = Some visit_first_child \<longrightarrow>
        visit (Suc n) self (Tree data [y, z] md) s = visit n self y s)
   \<and> (\<forall>g. lookup self data = Some (\<lambda>slf. g) \<longrightarrow>
        visit (Suc n) self (Tree data cs md) s = g (Tree data cs md) s)
   \<and> (isinstance_Tree y \<and> isinstance_Tree z \<and> visit n self y s = (Inr ry, s1)
        \<and> visit n self z s1 = (Inr rz, s2) \<longrightarrow>
        visit_children n self (Tree data [y, z] md) s = (Inr (PList [ry, rz]), s2))"
  by (simp add: visit_first_child_def visit_children_def visit_children_with_def)

theorem interpreter_no_automatic_descent_witness:
  "lookup lazy_interpreter ''X'' = Some visit_first_child
   \<and> visit (Suc (Suc 0)) lazy_interpreter XYZ_tree [] = (Inr (Leaf 0), [''Y''])
   \<and> visit (Suc 0) lazy_interpreter (Tree ''Y'' [] (Leaf 0)) [] = (Inr (Leaf 0), [''Y''])"
proof -
  have y: "visit (Suc 0) lazy_interpreter (Tree ''Y'' [] (Leaf 0)) [] = (Inr (Leaf 0), [''Y''])"
    by (simp add: lazy_lookup count_call_def)
  from interpreter_no_automatic_descent [of lazy_interpreter "''X''" "Suc 0" _ "Leaf 0"
      "Tree ''Y'' [] (Leaf 0)" "Tree ''Z'' [] (Leaf 0)" "[]"] lazy_lookup(1)
  have "visit (Suc (Suc 0)) lazy_interpreter XYZ_tree [] =
      visit (Suc 0) lazy_interpreter (Tree ''Y'' [] (Leaf 0)) []"
    unfolding XYZ_tree_def by blast
  with y lazy_lookup(1) show ?thesis by simp
qed

subsection \<open>Decorating a class\<close>

lemma class_getattr_names:
  "class_getattr cls name = Some v \<Longrightarrow> name \<in> set (concat (map (map fst) cls))"
proof (induction cls)
  case Nil
  then show ?case by simp
next
  case (Cons ns bases)
  show ?case
  proof (cases "map_of ns name")
    case None
    with Cons show ?thesis by simp
  next
    case (Some w)
    then have "(name, w) \<in> set ns" by (rule map_of_SomeD)
    then have "name \<in> fst ` set ns" by force
    then show ?thesis by simp
  qed
qed

lemma class_dir_set: "set (class_dir cls) = set (concat (map (map fst) cls))"
  by (simp add: class_dir_def)

lemma class_dir_distinct: "distinct (class_dir cls)"
  by (simp add: class_dir_def)

lemma map_filter_names:
  "map fst (List.map_filter (\<lambda>name. map_option (Pair name) (g name)) xs) =
     filter (\<lambda>name. g name \<noteq> None) xs"
  by (induction xs) (auto simp: List.map_filter_simps split: option.splits)

lemma map_filter_members:
  "(name, v) \<in> set (List.map_filter (\<lambda>name. map_option (Pair name) (g name)) xs) \<longleftrightarrow>
     name \<in> set xs \<and> g name = Some v"
  by (induction xs) (auto simp: List.map_filter_simps split: option.splits)

lemma getmembers_distinct: "distinct (map fst (getmembers cls))"
  by (simp add: getmembers_def map_filter_names class_dir_distinct)

lemma getmembers_iff:
  "(name, v) \<in> set (getmembers cls) \<longleftrightarrow> class_getattr cls name = Some v"
proof
  assume "(name, v) \<in> set (getmembers cls)"
  then show "class_getattr cls name = Some v"
    by (simp add: getmembers_def map_filter_members)
next
  assume a: "class_getattr cls name = Some v"
  then have "name \<in> set (class_dir cls)"
    unfolding class_dir_set by (rule class_getattr_names)
  with a show "(name, v) \<in> set (getmembers cls)"
    by (simp add: getmembers_def map_filter_members)
qed

lemma libmembers_inherited:
  "class_getattr bases name = Some v \<Longrightarrow> name \<in> set (libmembers (own # bases))"
  by (simp add: libmembers_def class_getattr_names del: set_concat)

lemma apply_decorator_loop_total:
  "\<forall>v. \<exists>w. decorator v = Inr w \<Longrightarrow> \<exists>cls'. apply_decorator_loop decorator lib members cls = Inr cls'"
proof (induction members arbitrary: cls)
  case Nil
  show ?case by simp
next
  case (Cons m members)
  obtain name v where m: "m = (name, v)" by (cases m)
  from Cons.prems obtain w where w: "decorator v = Inr w" by blast
  from Cons.IH[OF Cons.prems] m w show ?case by simp
qed

lemma apply_decorator_loop_result:
  "apply_decorator_loop decorator lib members (own # bases) = Inr cls' \<Longrightarrow>
     \<exists>own'. cls' = own' # bases
       \<and> (\<forall>name. (\<forall>v. (name, v) \<in> set members \<longrightarrow> startswith_underscore name \<or> name \<in> set lib) \<longrightarrow>
             map_of own' name = map_of own name)
       \<and> (distinct (map fst members) \<longrightarrow>
            (\<forall>name v. (name, v) \<in> set members \<and> \<not> startswith_underscore name \<and> name \<notin> set lib \<longrightarrow>
               (\<exists>w. decorator v = Inr w \<and> map_of own' name = Some w)))"
proof (induction members arbitrary: own)
  case Nil
  then show ?case by auto
next
  case (Cons m members)
  obtain n x where m: "m = (n, x)" by (cases m)
  show ?case
  proof (cases "startswith_underscore n \<or> n \<in> set lib")
    case True
    with Cons.prems m have "apply_decorator_loop decorator lib members (own # bases) = Inr cls'"
      by simp
    from Cons.IH[OF this] obtain own' where own': "cls' = own' # bases"
      and keep: "\<forall>name. (\<forall>v. (name, v) \<in> set members \<longrightarrow> startswith_underscore name \<or> name \<in> set lib) \<longrightarrow>
             map_of own' name = map_of own name"
      and wrap: "distinct (map fst members) \<longrightarrow>
            (\<forall>name v. (name, v) \<in> set members \<and> \<not> startswith_underscore name \<and> name \<notin> set lib \<longrightarrow>
               (\<exists>w. decorator v = Inr w \<and> map_of own' name = Some w))"
      by blast
    have k: "\<forall>name. (\<forall>v. (name, v) \<in> set (m # members) \<longrightarrow> startswith_underscore name \<or> name \<in> set lib) \<longrightarrow>
             map_of own' name = map_of own name"
    proof (intro allI impI)
      fix name
      assume "\<forall>v. (name, v) \<in> set (m # members) \<longrightarrow> startswith_underscore name \<or> name \<in> set lib"
      then have "\<forall>v. (name, v) \<in> set members \<longrightarrow> startswith_underscore name \<or> name \<in> set lib"
        by simp
      with keep show "map_of own' name = map_of own name" by blast
    qed
    have w: "distinct (map fst (m # members)) \<longrightarrow>
            (\<forall>name v. (name, v) \<in> set (m # members) \<and> \<not> startswith_underscore name \<and> name \<notin> set lib \<longrightarrow>
               (\<exists>w. decorator v = Inr w \<and> map_of own' name = Some w))"
      using wrap True m by auto
    from own' k w show ?thesis by blast
  next
    case False
    with Cons.prems m obtain w where w: "decorator x = Inr w"
      by (cases "decorator x") auto
    with Cons.prems m False
    have "apply_decorator_loop decorator lib members (AList.update n w own # bases) = Inr cls'"
      by (simp add: class_setattr_def)
    from Cons.IH[OF this] obtain own' where own': "cls' = own' # bases"
      and keep: "\<forall>name. (\<forall>v. (name, v) \<in> set members \<longrightarrow> startswith_underscore name \<or> name \<in> set lib) \<longrightarrow>
             map_of own' name = map_of (AList.update n w own) name"
      and wrap: "distinct (map fst members) \<longrightarrow>
            (\<forall>name v. (name, v) \<in> set members \<and> \<not> startswith_underscore name \<and> name \<notin> set lib \<longrightarrow>
               (\<exists>w. decorator v = Inr w \<and> map_of own' name = Some w))"
      by blast
    have k: "\<forall>name. (\<forall>v. (name, v) \<in> set (m # members) \<longrightarrow> startswith_underscore name \<or> name \<in> set lib) \<longrightarrow>
             map_of own' name = map_of own name"
    proof (intro allI impI)
      fix name
      assume a: "\<forall>v. (name, v) \<in> set (m # members) \<longrightarrow> startswith_underscore name \<or> name \<in> set lib"
      with m False have ne: "name \<noteq> n" by auto
      from a have "\<forall>v. (name, v) \<in> set members \<longrightarrow> startswith_underscore name \<or> name \<in> set lib"
        by simp
      with keep have "map_of own' name = map_of (AList.update n w own) name" by blast
      with ne show "map_of own' name = map_of own name" by (simp add: update_conv')
    qed
    have wr: "distinct (map fst (m # members)) \<longrightarrow>
            (\<forall>name v. (name, v) \<in> set (m # members) \<and> \<not> startswith_underscore name \<and> name \<notin> set lib \<longrightarrow>
               (\<exists>w. decorator v = Inr w \<and> map_of own' name = Some w))"
    proof (intro allI impI)
      fix name v
      assume d: "distinct (map fst (m # members))"
        and a: "(name, v) \<in> set (m # members) \<and> \<not> startswith_underscore name \<and> name \<notin> set lib"
      show "\<exists>w. decorator v = Inr w \<and> map_of own' name = Some w"
      proof (cases "(name, v) = m")
        case True
        with m have nv: "name = n" "v = x" by simp_all
        from d m have "n \<notin> fst ` set members" by simp
        then have "\<forall>v. (n, v) \<in> set members \<longrightarrow> startswith_underscore n \<or> n \<in> set lib"
          by force
        with keep have "map_of own' n = map_of (AList.update n w own) n" by blast
        then have "map_of own' n = Some w" by (simp add: update_conv')
        with w nv show ?thesis by simp
      next
        case False
        with a have "(name, v) \<in> set members" by auto
        with wrap d a show ?thesis by simp
      qed
    qed
    from own' k wr show ?thesis by blast
  qed
qed

text \<open>
  What the class method does, for every class and decorator. When it returns, the ancestors
  are as they were; every member that the class defines itself whose name does not start with
  an underscore and is not the name of a member of an ancestor is replaced by its wrapped
  value; every other name is looked up as before: the names that start with an underscore,
  the members that the class does not define itself (a method inherited unchanged is never
  wrapped again), and the names that an ancestor has too, whether the class defines such a
  name itself or not. It returns when the decorator returns on every value, and the decorator
  built by \<^verbatim>\<open>visitor_args\<close> applies it to a class.
\<close>

lemma Transformer_apply_decorator_result:
  "((\<forall>v. \<exists>w. decorator v = Inr w) \<longrightarrow>
      (\<exists>cls'. Transformer_apply_decorator (own # bases) decorator = Inr cls'))
   \<and> (Transformer_apply_decorator (own # bases) decorator = Inr cls' \<longrightarrow>
        tl cls' = bases
        \<and> (\<forall>name v. map_of own name = Some v \<and> \<not> startswith_underscore name
              \<and> name \<notin> set (libmembers (own # bases)) \<longrightarrow>
              (\<exists>w. decorator v = Inr w \<and> class_getattr cls' name = Some w))
        \<and> (\<forall>name. startswith_underscore name \<or> map_of own name = None
              \<or> name \<in> set (libmembers (own # bases)) \<longrightarrow>
              class_getattr cls' name = class_getattr (own # bases) name))
   \<and> (\<not> (inl \<and> mt) \<longrightarrow>
        (\<exists>dec. visitor_args sd inl mt = Inr dec
           \<and> dec (Transformer_class cls) =
               (case Transformer_apply_decorator cls (\<lambda>func. visitor_args_func_dec sd func inl mt) of
                  Inl e \<Rightarrow> Inl e
                | Inr c \<Rightarrow> Inr (Transformer_class c))))"
proof (intro conjI impI)
  assume "\<forall>v. \<exists>w. decorator v = Inr w"
  then show "\<exists>cls'. Transformer_apply_decorator (own # bases) decorator = Inr cls'"
    unfolding Transformer_apply_decorator_def by (rule apply_decorator_loop_total)
next
  assume "\<not> (inl \<and> mt)"
  then show "\<exists>dec. visitor_args sd inl mt = Inr dec
           \<and> dec (Transformer_class cls) =
               (case Transformer_apply_decorator cls (\<lambda>func. visitor_args_func_dec sd func inl mt) of
                  Inl e \<Rightarrow> Inl e
                | Inr c \<Rightarrow> Inr (Transformer_class c))"
    by (auto simp: visitor_args_def apply_decorator_def)
next
  assume a: "Transformer_apply_decorator (own # bases) decorator = Inr cls'"
  let ?cls = "own # bases"
  from a have "apply_decorator_loop decorator (libmembers ?cls) (getmembers ?cls) ?cls = Inr cls'"
    by (simp add: Transformer_apply_decorator_def)
  from apply_decorator_loop_result[OF this] getmembers_distinct[of ?cls]
  obtain own' where own': "cls' = own' # bases"
    and keep: "\<forall>name. (\<forall>v. (name, v) \<in> set (getmembers ?cls) \<longrightarrow>
          startswith_underscore name \<or> name \<in> set (libmembers ?cls)) \<longrightarrow>
             map_of own' name = map_of own name"
    and wrap: "\<forall>name v. (name, v) \<in> set (getmembers ?cls) \<and> \<not> startswith_underscore name
          \<and> name \<notin> set (libmembers ?cls) \<longrightarrow>
               (\<exists>w. decorator v = Inr w \<and> map_of own' name = Some w)"
    by blast
  from own' show "tl cls' = bases" by simp
  show "\<forall>name v. map_of own name = Some v \<and> \<not> startswith_underscore name
              \<and> name \<notin> set (libmembers (own # bases)) \<longrightarrow>
              (\<exists>w. decorator v = Inr w \<and> class_getattr cls' name = Some w)"
  proof (intro allI impI)
    fix name v
    assume b: "map_of own name = Some v \<and> \<not> startswith_underscore name
              \<and> name \<notin> set (libmembers (own # bases))"
    then have "class_getattr ?cls name = Some v" by simp
    then have "(name, v) \<in> set (getmembers ?cls)" by (simp add: getmembers_iff)
    with wrap b obtain w where "decorator v = Inr w" "map_of own' name = Some w" by blast
    with own' show "\<exists>w. decorator v = Inr w \<and> class_getattr cls' name = Some w" by simp
  qed
  show "\<forall>name. startswith_underscore name \<or> map_of own name = None
              \<or> name \<in> set (libmembers (own # bases)) \<longrightarrow>
              class_getattr cls' name = class_getattr (own # bases) name"
  proof (intro allI impI)
    fix name
    assume b: "startswith_underscore name \<or> map_of own name = None
        \<or> name \<in> set (libmembers (own # bases))"
    have "\<forall>v. (name, v) \<in> set (getmembers ?cls) \<longrightarrow>
          startswith_underscore name \<or> name \<in> set (libmembers ?cls)"
    proof (intro allI impI)
      fix v
      assume "(name, v) \<in> set (getmembers ?cls)"
      then have g: "class_getattr ?cls name = Some v" by (simp add: getmembers_iff)
      from b show "startswith_underscore name \<or> name \<in> set (libmembers ?cls)"
      proof (elim disjE)
        assume "startswith_underscore name"
        then show ?thesis by simp
      next
        assume "map_of own name = None"
        with g have "class_getattr bases name = Some v" by simp
        then show ?thesis by (simp add: libmembers_inherited)
      next
        assume "name \<in> set (libmembers (own # bases))"
        then show ?thesis by simp
      qed
    qed
    with keep have "map_of own' name = map_of own name" by blast
    with own' show "class_getattr cls' name = class_getattr (own # bases) name" by simp
  qed
qed

text \<open>
  C5. The rule has the decorator wrap every method that the class defines itself under a name
  without a leading underscore, unless the method is inherited unchanged. The class method
  does not: \<^verbatim>\<open>Sub\<close> defines \<^verbatim>\<open>expr\<close> itself (here 10), with a definition other than the one of
  \<^verbatim>\<open>Base\<close> (here 0), and decorating \<^verbatim>\<open>Sub\<close> leaves \<^verbatim>\<open>expr\<close> unwrapped (10, where wrapping gives
  11), because \<^verbatim>\<open>Base\<close> has a member of that name. The rest is as the rule says: \<^verbatim>\<open>fresh\<close> is
  wrapped, and \<^verbatim>\<open>_helper\<close> and the inherited \<^verbatim>\<open>term\<close> are left as they are.
\<close>

theorem class_decoration_override_unwrapped:
  "map_of (hd Sub_class) ''expr'' = Some 10
   \<and> class_getattr (tl Sub_class) ''expr'' = Some 0
   \<and> wrap_once 10 = Inr 11
   \<and> Transformer_apply_decorator Sub_class wrap_once =
       Inr [[(''expr'', 10), (''_helper'', 20), (''fresh'', 31)], Base_namespace, Transformer_namespace]
   \<and> class_getattr [[(''expr'', 10), (''_helper'', 20), (''fresh'', 31)], Base_namespace,
        Transformer_namespace] ''expr'' = Some 10
   \<and> class_getattr [[(''expr'', 10), (''_helper'', 20), (''fresh'', 31)], Base_namespace,
        Transformer_namespace] ''fresh'' = Some 31
   \<and> class_getattr [[(''expr'', 10), (''_helper'', 20), (''fresh'', 31)], Base_namespace,
        Transformer_namespace] ''term'' = Some 0
   \<and> class_getattr [[(''expr'', 10), (''_helper'', 20), (''fresh'', 31)], Base_namespace,
        Transformer_namespace] ''_helper'' = Some 20"
  by code_simp

end
